theory Spec2Isabelle
  imports Complex_Main "HOL-Library.Char_ord" "HOL-Library.List_Lexorder"
begin

section \<open>Python values used by compare_payments.py\<close>

text \<open>
  A Python \<open>str\<close> is modelled as a \<open>string\<close>: each \<open>char\<close> stands for one code point
  below 256. On that range the white space of \<open>str.strip\<close> and the decimal digits of the
  regular expression class \<open>\d\<close> are the sets written out below. Exceptions are values
  of \<open>pyerror\<close>, and a function that can raise returns \<open>pyerror + 'a\<close> with \<open>Inl\<close>
  for the exception.
\<close>

datatype pyerror = InvalidOperation | Overflow | IndexError | ValueError

definition isspace :: "char \<Rightarrow> bool" where
  "isspace c = ((of_char c :: nat) \<in> {9, 10, 11, 12, 13, 28, 29, 30, 31, 32, 133, 160})"

definition isdigit :: "char \<Rightarrow> bool" where
  "isdigit c = (48 \<le> (of_char c :: nat) \<and> (of_char c :: nat) \<le> 57)"

text \<open>\<open>s.strip()\<close>: leading and trailing white space removed.\<close>

definition strip :: "string \<Rightarrow> string" where
  "strip s = rev (dropWhile isspace (rev (dropWhile isspace s)))"

text \<open>\<open>s.replace(old, new)\<close> for a one-character \<open>old\<close>, the only use in the source.\<close>

definition replace :: "char \<Rightarrow> string \<Rightarrow> string \<Rightarrow> string" where
  "replace old new s = concat (map (\<lambda>c. if c = old then new else [c]) s)"

text \<open>\<open>s.split(sep)\<close> for a one-character separator, and the subscript \<open>[0]\<close>.\<close>

fun py_split :: "char \<Rightarrow> string \<Rightarrow> string list" where
  "py_split sep [] = [[]]"
| "py_split sep (c # cs) =
     (if c = sep then [] # py_split sep cs
      else (case py_split sep cs of
              w # ws \<Rightarrow> (c # w) # ws
            | [] \<Rightarrow> [[c]]))"

definition item0 :: "'a list \<Rightarrow> pyerror + 'a" where
  "item0 xs = (case xs of [] \<Rightarrow> Inl IndexError | x # _ \<Rightarrow> Inr x)"

text \<open>\<open>str(n)\<close> of an integer.\<close>

definition digit_char :: "nat \<Rightarrow> char" where
  "digit_char n = ''0123456789'' ! n"

fun str_nat :: "nat \<Rightarrow> string" where
  "str_nat n =
     (if n < 10 then [digit_char n]
      else str_nat (n div 10) @ [digit_char (n mod 10)])"

declare str_nat.simps [simp del]

definition str_int :: "int \<Rightarrow> string" where
  "str_int i = (if i < 0 then CHR ''-'' # str_nat (nat (- i)) else str_nat (nat i))"

text \<open>The number of decimal digits of a natural number.\<close>

definition ndigits :: "nat \<Rightarrow> nat" where
  "ndigits c = length (str_nat c)"

text \<open>
  A cell of a data frame read by \<open>pandas.read_excel\<close>: \<open>None\<close>, the float NaN that marks
  an empty cell, a \<open>str\<close>, an \<open>int\<close>, or any other float, which is represented by the
  text \<open>str\<close> returns for it (\<open>''1234.56''\<close>, \<open>''1e+16''\<close>, \<open>''inf''\<close>).
\<close>

datatype cell = PyNone | PyNaN | PyStr string | PyInt int | PyFloat string

text \<open>
  \<open>str(value)\<close>. CPython 3.11 and later (and 3.10 from 3.10.7 on) refuses to convert an
  \<open>int\<close> of more than \<open>sys.get_int_max_str_digits()\<close> digits, 4300 unless the interpreter
  is configured otherwise, and raises \<open>ValueError\<close>; the sign does not count. A cell of
  another type (a date, a boolean) is not a float and not \<open>None\<close>, so the program treats
  it as it treats the \<open>str\<close> of its text.
\<close>

definition int_max_str_digits :: nat where
  "int_max_str_digits = 4300"

fun py_str :: "cell \<Rightarrow> pyerror + string" where
  "py_str PyNone = Inr ''None''"
| "py_str PyNaN = Inr ''nan''"
| "py_str (PyStr s) = Inr s"
| "py_str (PyInt i) =
     (if int_max_str_digits < ndigits (nat \<bar>i\<bar>) then Inl ValueError else Inr (str_int i))"
| "py_str (PyFloat r) = Inr r"

text \<open>\<open>value is None or (isinstance(value, float) and pd.isna(value))\<close>; \<open>pd.notna\<close> is its negation on cells.\<close>

definition is_missing :: "cell \<Rightarrow> bool" where
  "is_missing v = (v = PyNone \<or> v = PyNaN)"

section \<open>decimal.Decimal under the default context\<close>

text \<open>
  A \<open>Decimal\<close> is a sign, a coefficient and an exponent (\<open>Finite\<close>), an infinity, or a
  quiet or signalling NaN with its payload. The sign is \<open>True\<close> for minus.
\<close>

datatype decimal = Finite bool nat int | Infinite bool | QNaN bool nat | SNaN bool nat

text \<open>The lower-case form of a letter, for matching without regard to case.\<close>

definition lower :: "char \<Rightarrow> char" where
  "lower c =
     (case map_of (zip ''ABCDEFGHIJKLMNOPQRSTUVWXYZ'' ''abcdefghijklmnopqrstuvwxyz'') c of
        Some l \<Rightarrow> l
      | None \<Rightarrow> c)"

definition nat_of_digits :: "string \<Rightarrow> nat" where
  "nat_of_digits ds = foldl (\<lambda>a c. 10 * a + ((of_char c :: nat) - 48)) 0 ds"

definition split_sign :: "string \<Rightarrow> bool \<times> string" where
  "split_sign s =
     (case s of
        [] \<Rightarrow> (False, [])
      | c # cs \<Rightarrow> if c = CHR ''-'' then (True, cs)
                  else if c = CHR ''+'' then (False, cs) else (False, s))"

text \<open>The optional exponent part \<open>(E[-+]?\d+)?\<close> up to the end of the text.\<close>

definition parse_exponent :: "string \<Rightarrow> int option" where
  "parse_exponent s =
     (case s of
        [] \<Rightarrow> Some 0
      | c # cs \<Rightarrow>
          if lower c = CHR ''e'' then
            (let (neg, ds) = split_sign cs in
             if ds \<noteq> [] \<and> list_all isdigit ds
             then Some (if neg then - int (nat_of_digits ds) else int (nat_of_digits ds))
             else None)
          else None)"

text \<open>
  The limits of the C implementation of the module, which CPython uses, on a 64-bit
  build: the largest precision and exponent of any context, and the least exponent of a
  subnormal number in the widest context.
\<close>

definition MAX_PREC :: nat where "MAX_PREC = 999999999999999999"
definition MAX_EMAX :: int where "MAX_EMAX = 999999999999999999"
definition MIN_ETINY :: int where "MIN_ETINY = - 1999999999999999997"

text \<open>
  A finite number \<open>\d*(\.\d*)?(E[-+]?\d+)?\<close> with at least one digit: its coefficient
  and exponent. More than \<open>MAX_PREC\<close> digits after the point are refused.
\<close>

definition parse_finite :: "string \<Rightarrow> (nat \<times> int) option" where
  "parse_finite s =
     (let ip = takeWhile isdigit s;
          r1 = dropWhile isdigit s;
          (fp, r2) = (case r1 of
                        [] \<Rightarrow> ([], [])
                      | c # cs \<Rightarrow> if c = CHR ''.''
                                  then (takeWhile isdigit cs, dropWhile isdigit cs)
                                  else ([], r1))
      in if ip = [] \<and> fp = [] then None
         else if MAX_PREC < length fp then None
         else (case parse_exponent r2 of
                 None \<Rightarrow> None
               | Some e \<Rightarrow> Some (nat_of_digits (ip @ fp), e - int (length fp))))"

text \<open>
  \<open>Inf(inity)?\<close> and \<open>s?NaN\d*\<close>, letters in either case. A payload of more than
  \<open>MAX_PREC\<close> digits is refused.
\<close>

definition parse_special :: "bool \<Rightarrow> string \<Rightarrow> decimal option" where
  "parse_special sign s =
     (let t = map lower s in
      if t = ''inf'' \<or> t = ''infinity'' then Some (Infinite sign)
      else if take 3 t = ''nan'' \<and> list_all isdigit (drop 3 t)
              \<and> ndigits (nat_of_digits (drop 3 t)) \<le> MAX_PREC
        then Some (QNaN sign (nat_of_digits (drop 3 t)))
      else if take 4 t = ''snan'' \<and> list_all isdigit (drop 4 t)
              \<and> ndigits (nat_of_digits (drop 4 t)) \<le> MAX_PREC
        then Some (SNaN sign (nat_of_digits (drop 4 t)))
      else None)"

text \<open>
  \<open>Decimal(text)\<close>: the text is stripped, its underscores are removed, and what is
  left must be a numeric string; otherwise \<open>InvalidOperation\<close> is raised. The
  conversion is exact, whatever the precision of the context in use, and it is carried
  out in the widest context: a number that does not fit it without rounding is an
  \<open>InvalidOperation\<close> as well. That is the case when the coefficient, without its leading
  zeros, has more than \<open>MAX_PREC\<close> digits, when the exponent of the leading digit is above
  \<open>MAX_EMAX\<close>, and when the exponent is below \<open>MIN_ETINY\<close>.
\<close>

definition Decimal :: "string \<Rightarrow> pyerror + decimal" where
  "Decimal s =
     (let (sign, r) = split_sign (replace (CHR ''_'') [] (strip s)) in
      case parse_finite r of
        Some (c, e) \<Rightarrow>
          if ndigits c \<le> MAX_PREC \<and> int (ndigits c) + e - 1 \<le> MAX_EMAX \<and> MIN_ETINY \<le> e
          then Inr (Finite sign c e)
          else Inl InvalidOperation
      | None \<Rightarrow> (case parse_special sign r of
                   Some d \<Rightarrow> Inr d
                 | None \<Rightarrow> Inl InvalidOperation))"

subsection \<open>Arithmetic\<close>

text \<open>
  The default context: 28 digits of precision, rounding half to even, exponents between
  \<open>Emin\<close> and \<open>Emax\<close>, and the traps \<open>InvalidOperation\<close>, \<open>DivisionByZero\<close> and
  \<open>Overflow\<close> enabled, so that each of these signals raises. The other signals
  (\<open>Inexact\<close>, \<open>Rounded\<close>, \<open>Subnormal\<close>, \<open>Underflow\<close>, \<open>Clamped\<close>) only set a flag,
  which no code of the program reads.
\<close>

definition prec :: nat where "prec = 28"
definition Emax :: int where "Emax = 999999"
definition Emin :: int where "Emin = - 999999"
definition Etiny :: int where "Etiny = Emin - int prec + 1"
definition Etop :: int where "Etop = Emax - int prec + 1"

text \<open>
  Rounding a finite result to the context: more digits than the precision (or than a
  subnormal exponent allows) are rounded away, half to even; a result above \<open>Emax\<close>
  raises \<open>Overflow\<close>; a zero keeps its exponent within the exponent range.
\<close>

definition dec_fix :: "bool \<Rightarrow> nat \<Rightarrow> int \<Rightarrow> pyerror + decimal" where
  "dec_fix sign c e =
     (if c = 0 then Inr (Finite sign 0 (min (max e Etiny) Emax))
      else let exp_min0 = int (ndigits c) + e - int prec in
        if exp_min0 > Etop then Inl Overflow
        else let exp_min = max exp_min0 Etiny in
          if e < exp_min then
            (let k = nat (exp_min - e);
                 q = c div 10 ^ k;
                 r = c mod 10 ^ k;
                 up = (2 * r > 10 ^ k \<or> (2 * r = 10 ^ k \<and> odd q));
                 (coeff, exp') = (if up then (if ndigits (q + 1) > prec
                                              then ((q + 1) div 10, exp_min + 1)
                                              else (q + 1, exp_min))
                                  else (q, exp_min))
             in if exp' > Etop then Inl Overflow else Inr (Finite sign coeff exp'))
          else Inr (Finite sign c e))"

text \<open>
  NaN operands: a signalling NaN raises \<open>InvalidOperation\<close>, a quiet NaN is the
  result, with its payload cut to the precision.
\<close>

fun check_nans :: "decimal \<Rightarrow> decimal \<Rightarrow> (pyerror + decimal) option" where
  "check_nans (SNaN s p) y = Some (Inl InvalidOperation)"
| "check_nans x (SNaN s p) = Some (Inl InvalidOperation)"
| "check_nans (QNaN s p) y = Some (Inr (QNaN s (p mod 10 ^ prec)))"
| "check_nans x (QNaN s p) = Some (Inr (QNaN s (p mod 10 ^ prec)))"
| "check_nans x y = None"

text \<open>
  Two non-zero operands are brought to a common exponent. The operand with the
  smaller exponent is replaced by one unit of a far lower digit when it is too small
  to change the rounded sum. The triple is the coefficient of the first operand, the
  coefficient of the second one, and their exponent.
\<close>

definition dec_normalize_aux :: "nat \<Rightarrow> int \<Rightarrow> nat \<Rightarrow> int \<Rightarrow> nat \<times> nat \<times> int" where
  "dec_normalize_aux tc te oc oe =
     (let exp = te + min (- 1) (int (ndigits tc) - int prec - 2);
          (oc', oe') = (if int (ndigits oc) + oe - 1 < exp then (1, exp) else (oc, oe))
      in (tc * 10 ^ nat (te - oe'), oc', oe'))"

definition dec_normalize :: "nat \<Rightarrow> int \<Rightarrow> nat \<Rightarrow> int \<Rightarrow> nat \<times> nat \<times> int" where
  "dec_normalize c1 e1 c2 e2 =
     (if e1 < e2 then (let (t, ot, e) = dec_normalize_aux c2 e2 c1 e1 in (ot, t, e))
      else dec_normalize_aux c1 e1 c2 e2)"

definition add_finite :: "bool \<Rightarrow> nat \<Rightarrow> int \<Rightarrow> bool \<Rightarrow> nat \<Rightarrow> int \<Rightarrow> pyerror + decimal" where
  "add_finite s1 c1 e1 s2 c2 e2 =
     (let exp = min e1 e2 in
      if c1 = 0 \<and> c2 = 0 then dec_fix (s1 \<and> s2) 0 exp
      else if c1 = 0 then
        (let exp' = max exp (e2 - int prec - 1) in dec_fix s2 (c2 * 10 ^ nat (e2 - exp')) exp')
      else if c2 = 0 then
        (let exp' = max exp (e1 - int prec - 1) in dec_fix s1 (c1 * 10 ^ nat (e1 - exp')) exp')
      else
        (let (a1, a2, e) = dec_normalize c1 e1 c2 e2 in
         if s1 \<noteq> s2 then
           (if a1 = a2 then dec_fix False 0 exp
            else if a1 < a2 then dec_fix s2 (a2 - a1) e
            else dec_fix s1 (a1 - a2) e)
         else dec_fix s1 (a1 + a2) e))"

text \<open>\<open>x + y\<close> on decimals.\<close>

definition dec_add :: "decimal \<Rightarrow> decimal \<Rightarrow> pyerror + decimal" where
  "dec_add x y =
     (case check_nans x y of
        Some r \<Rightarrow> r
      | None \<Rightarrow>
          (case x of
             Infinite s1 \<Rightarrow>
               (case y of
                  Infinite s2 \<Rightarrow> if s1 \<noteq> s2 then Inl InvalidOperation else Inr (Infinite s1)
                | _ \<Rightarrow> Inr (Infinite s1))
           | Finite s1 c1 e1 \<Rightarrow>
               (case y of
                  Infinite s2 \<Rightarrow> Inr (Infinite s2)
                | Finite s2 c2 e2 \<Rightarrow> add_finite s1 c1 e1 s2 c2 e2
                | _ \<Rightarrow> Inr y)
           | _ \<Rightarrow> Inr x))"

fun copy_negate :: "decimal \<Rightarrow> decimal" where
  "copy_negate (Finite s c e) = Finite (\<not> s) c e"
| "copy_negate (Infinite s) = Infinite (\<not> s)"
| "copy_negate (QNaN s p) = QNaN (\<not> s) p"
| "copy_negate (SNaN s p) = SNaN (\<not> s) p"

text \<open>\<open>x - y\<close> on decimals: after the check for NaNs, \<open>x + (-y)\<close>.\<close>

definition dec_sub :: "decimal \<Rightarrow> decimal \<Rightarrow> pyerror + decimal" where
  "dec_sub x y =
     (case check_nans x y of
        Some r \<Rightarrow> r
      | None \<Rightarrow> dec_add x (copy_negate y))"

text \<open>\<open>x == 0\<close>: false for a quiet NaN, and a signalling NaN raises.\<close>

fun dec_eq_zero :: "decimal \<Rightarrow> pyerror + bool" where
  "dec_eq_zero (Finite s c e) = Inr (c = 0)"
| "dec_eq_zero (Infinite s) = Inr False"
| "dec_eq_zero (QNaN s p) = Inr False"
| "dec_eq_zero (SNaN s p) = Inl InvalidOperation"

text \<open>The number a finite decimal stands for.\<close>

fun dec_val :: "decimal \<Rightarrow> rat" where
  "dec_val (Finite s c e) = (if s then - 1 else 1) * of_nat c * 10 powi e"
| "dec_val d = 0"

fun is_finite :: "decimal \<Rightarrow> bool" where
  "is_finite (Finite s c e) = True"
| "is_finite d = False"

section \<open>The parsers of compare_payments.py\<close>

text \<open>
  \<open>str(value)\<close> stands before the \<open>try\<close> statement, whose handler catches
  \<open>InvalidOperation\<close> only.
\<close>

definition parse_amount :: "cell \<Rightarrow> pyerror + decimal option" where
  "parse_amount v =
     (if v = PyNone \<or> v = PyNaN then Inr None
      else (case py_str v of
              Inl e \<Rightarrow> Inl e
            | Inr s \<Rightarrow>
                (let text = replace (CHR '' '') [] (strip s) in
                 if text = [] then Inr None
                 else (case Decimal (replace (CHR '','') ''.'' text) of
                         Inr d \<Rightarrow> Inr (Some d)
                       | Inl InvalidOperation \<Rightarrow> Inr None
                       | Inl e \<Rightarrow> Inl e))))"

text \<open>
  \<open>ID_BRACKET_RE = re.compile(r"\[(\d+)\]")\<close>: \<open>match_here\<close> is a match that starts at
  the first character and gives group 1; \<open>ID_BRACKET_RE_search\<close> tries every start
  from the left, as \<open>search\<close> does.
\<close>

definition match_here :: "string \<Rightarrow> string option" where
  "match_here s =
     (case s of
        [] \<Rightarrow> None
      | c # cs \<Rightarrow>
          if c = CHR ''[''
          then (let ds = takeWhile isdigit cs; rest = dropWhile isdigit cs in
                if ds \<noteq> [] \<and> (case rest of [] \<Rightarrow> False | r # _ \<Rightarrow> r = CHR '']'')
                then Some ds else None)
          else None)"

fun ID_BRACKET_RE_search :: "string \<Rightarrow> string option" where
  "ID_BRACKET_RE_search [] = None"
| "ID_BRACKET_RE_search (c # cs) =
     (case match_here (c # cs) of
        Some g \<Rightarrow> Some g
      | None \<Rightarrow> ID_BRACKET_RE_search cs)"

definition parse_id_from_file1 :: "cell \<Rightarrow> pyerror + string option" where
  "parse_id_from_file1 name_with_id =
     (if name_with_id = PyNone \<or> name_with_id = PyNaN then Inr None
      else (case py_str name_with_id of
              Inl e \<Rightarrow> Inl e
            | Inr s \<Rightarrow> Inr (ID_BRACKET_RE_search s)))"

definition parse_id_from_file2 :: "cell \<Rightarrow> pyerror + string option" where
  "parse_id_from_file2 raw_id =
     (if raw_id = PyNone \<or> raw_id = PyNaN then Inr None
      else (case py_str raw_id of
              Inl e \<Rightarrow> Inl e
            | Inr s \<Rightarrow>
                (let text = strip s in
                 if text = [] then Inr None
                 else (case item0 (py_split (CHR '','') text) of
                         Inl e \<Rightarrow> Inl e
                       | Inr w \<Rightarrow> Inr (Some (strip w))))))"

section \<open>The data frames\<close>

text \<open>
  \<open>prepare_file1\<close> and \<open>prepare_file2\<close> take the frame that \<open>pd.read_excel\<close> returns for
  the fixed columns, one record per row; reading the workbook itself is outside the
  model. pandas is modelled as of its versions 1.3 to 2.x: \<open>astype(str)\<close> turns every
  value, a missing one as well, into its text by a call of \<open>str\<close>, and \<open>Decimal('NaN')\<close>
  counts as a missing value for \<open>fillna\<close>.
\<close>

record row1 =
  f1_name_c :: cell
  f1_name_d :: cell
  f1_amount :: cell

record row2 =
  f2_raw_id :: cell
  f2_name_b :: cell
  f2_name_c :: cell
  f2_amount :: cell

text \<open>One row of the frame a \<open>prepare\<close> function returns.\<close>

record agg_row =
  agg_id :: string
  agg_amount :: decimal
  agg_name :: "string option"

text \<open>\<open>Series.apply(f)\<close> for an \<open>f\<close> that can raise: the first exception ends the call.\<close>

fun mapM :: "('a \<Rightarrow> pyerror + 'b) \<Rightarrow> 'a list \<Rightarrow> pyerror + 'b list" where
  "mapM f [] = Inr []"
| "mapM f (x # xs) =
     (case f x of
        Inl e \<Rightarrow> Inl e
      | Inr y \<Rightarrow> (case mapM f xs of Inl e \<Rightarrow> Inl e | Inr ys \<Rightarrow> Inr (y # ys)))"

text \<open>\<open>sum(vs, acc)\<close>: the decimals are added from the left.\<close>

fun sum_decimal :: "decimal \<Rightarrow> decimal list \<Rightarrow> pyerror + decimal" where
  "sum_decimal acc [] = Inr acc"
| "sum_decimal acc (v # vs) =
     (case dec_add acc v of Inl e \<Rightarrow> Inl e | Inr a \<Rightarrow> sum_decimal a vs)"

definition zero :: decimal where
  "zero = Finite False 0 0"

text \<open>\<open>lambda x: sum((v for v in x if v is not None), Decimal("0"))\<close>\<close>

definition not_none :: "'a option list \<Rightarrow> 'a list" where
  "not_none x = concat (map (\<lambda>v. case v of None \<Rightarrow> [] | Some d \<Rightarrow> [d]) x)"

definition sum_not_none :: "decimal option list \<Rightarrow> pyerror + decimal" where
  "sum_not_none x = sum_decimal zero (not_none x)"

text \<open>The aggregation \<open>"first"\<close>: the first value of the group that is not missing.\<close>

fun first :: "'a option list \<Rightarrow> 'a option" where
  "first [] = None"
| "first (None # xs) = first xs"
| "first (Some x # xs) = Some x"

text \<open>
  \<open>out.groupby("company_id", as_index=False).agg(...)\<close> on the rows
  \<open>(company_id, amount, company_name)\<close> of \<open>out\<close>: one row per key, the keys in
  ascending order, each group in the order of the rows.
\<close>

definition agg_group :: "(string \<times> decimal option \<times> string option) list \<Rightarrow> string \<Rightarrow> pyerror + agg_row" where
  "agg_group out k =
     (let g = filter (\<lambda>r. fst r = k) out in
      case sum_not_none (map (\<lambda>r. fst (snd r)) g) of
        Inl e \<Rightarrow> Inl e
      | Inr t \<Rightarrow> Inr \<lparr>agg_id = k, agg_amount = t, agg_name = first (map (\<lambda>r. snd (snd r)) g)\<rparr>)"

definition groupby_agg :: "(string \<times> decimal option \<times> string option) list \<Rightarrow> pyerror + agg_row list" where
  "groupby_agg out = mapM (agg_group out) (sort (remdups (map fst out)))"

text \<open>
  The rows \<open>out\<close> of both \<open>prepare\<close> functions. \<open>kept_rows\<close> is the selection
  \<open>df.loc[df["company_id"].notna(), ...]\<close> of the rows whose \<open>company_id\<close> is not missing,
  with their \<open>company_raw\<close> and amount. \<open>out_row\<close> strips the identifier of such a row,
  which is a \<open>str\<close> already, and gives it the name \<open>astype(str).str.strip()\<close> of
  \<open>company_raw\<close>; \<open>astype(str)\<close> calls \<open>str\<close> on every value that is not a \<open>str\<close>.
\<close>

definition kept_rows ::
    "string option list \<Rightarrow> cell list \<Rightarrow> decimal option list \<Rightarrow> (string \<times> cell \<times> decimal option) list" where
  "kept_rows ids raws amounts =
     concat (map (\<lambda>(i, raw, a). case i of None \<Rightarrow> [] | Some ci \<Rightarrow> [(ci, raw, a)])
                 (zip ids (zip raws amounts)))"

definition out_row :: "string \<times> cell \<times> decimal option \<Rightarrow> pyerror + string \<times> decimal option \<times> string option" where
  "out_row r =
     (case r of (ci, raw, a) \<Rightarrow>
        (case py_str raw of
           Inl e \<Rightarrow> Inl e
         | Inr s \<Rightarrow> Inr (strip ci, a, Some (strip s))))"

text \<open>\<open>df["name_d"].where(df["name_d"].notna(), df["name_c"])\<close>\<close>

definition company_raw1 :: "row1 \<Rightarrow> cell" where
  "company_raw1 r = (if \<not> is_missing (f1_name_d r) then f1_name_d r else f1_name_c r)"

definition prepare_file1 :: "row1 list \<Rightarrow> pyerror + agg_row list" where
  "prepare_file1 df =
     (let company_raw = map company_raw1 df in
      case mapM parse_id_from_file1 company_raw of
        Inl e \<Rightarrow> Inl e
      | Inr company_id \<Rightarrow>
          (case mapM parse_amount (map f1_amount df) of
             Inl e \<Rightarrow> Inl e
           | Inr amount_1 \<Rightarrow>
               (case mapM out_row (kept_rows company_id company_raw amount_1) of
                  Inl e \<Rightarrow> Inl e
                | Inr out \<Rightarrow> groupby_agg out)))"

text \<open>\<open>df["name_c"].where(df["name_c"].notna(), df["name_b"])\<close>\<close>

definition company_raw2 :: "row2 \<Rightarrow> cell" where
  "company_raw2 r = (if \<not> is_missing (f2_name_c r) then f2_name_c r else f2_name_b r)"

definition prepare_file2 :: "row2 list \<Rightarrow> pyerror + agg_row list" where
  "prepare_file2 df =
     (case mapM parse_id_from_file2 (map f2_raw_id df) of
        Inl e \<Rightarrow> Inl e
      | Inr company_id \<Rightarrow>
          (let company_raw = map company_raw2 df in
           case mapM parse_amount (map f2_amount df) of
             Inl e \<Rightarrow> Inl e
           | Inr amount_2 \<Rightarrow>
               (case mapM out_row (kept_rows company_id company_raw amount_2) of
                  Inl e \<Rightarrow> Inl e
                | Inr out \<Rightarrow> groupby_agg out)))"

section \<open>compare\<close>

record detail_row =
  company_id :: string
  company_name_1 :: "string option"
  company_name_2 :: "string option"
  amount_1 :: decimal
  amount_2 :: decimal
  delta :: decimal
  status :: string

record summary_row =
  summary_status :: string
  rows :: nat
  total_amount_1 :: decimal
  total_amount_2 :: decimal
  total_delta :: decimal

text \<open>
  \<open>left.merge(right, on="company_id", how="outer")\<close>: for every key of either frame, in
  ascending order, each pairing of a left row and a right row with that key; a side
  without the key is missing (\<open>None\<close>).
\<close>

definition merge_outer :: "agg_row list \<Rightarrow> agg_row list \<Rightarrow> (string \<times> agg_row option \<times> agg_row option) list" where
  "merge_outer left right =
     concat (map (\<lambda>k.
        let ls = filter (\<lambda>a. agg_id a = k) left;
            rs = filter (\<lambda>a. agg_id a = k) right
        in concat (map (\<lambda>l. map (\<lambda>r. (k, l, r)) (if rs = [] then [None] else map Some rs))
                       (if ls = [] then [None] else map Some ls)))
       (sort (remdups (map agg_id left @ map agg_id right))))"

text \<open>
  \<open>fillna(Decimal("0"))\<close> on an amount of the merged frame: a missing amount and
  \<open>Decimal('NaN')\<close> become zero. A signalling NaN never reaches a merged frame, since
  no sum returns one.
\<close>

fun fillna :: "decimal option \<Rightarrow> decimal" where
  "fillna None = zero"
| "fillna (Some (QNaN s p)) = zero"
| "fillna (Some d) = d"

definition get_status ::
    "string \<Rightarrow> string \<Rightarrow> string option \<Rightarrow> string option \<Rightarrow> decimal \<Rightarrow> pyerror + string" where
  "get_status file1_name file2_name name_1 name_2 d =
     (let has_1 = (name_1 \<noteq> None); has_2 = (name_2 \<noteq> None) in
      if has_1 \<and> has_2 then
        (case dec_eq_zero d of
           Inl e \<Rightarrow> Inl e
         | Inr z \<Rightarrow> Inr (if z then ''MATCH'' else ''MISMATCH''))
      else if has_1 then Inr (''only_file_'' @ file1_name)
      else Inr (''only_file_'' @ file2_name))"

text \<open>
  The merged frame after the two \<open>fillna\<close>, without \<open>delta\<close> and \<open>status\<close>: identifier,
  the two names and the two amounts.
\<close>

type_synonym merged_row = "string \<times> string option \<times> string option \<times> decimal \<times> decimal"

definition filled :: "string \<times> agg_row option \<times> agg_row option \<Rightarrow> merged_row" where
  "filled m =
     (case m of (k, l, r) \<Rightarrow>
        (k,
         (case l of None \<Rightarrow> None | Some a \<Rightarrow> agg_name a),
         (case r of None \<Rightarrow> None | Some a \<Rightarrow> agg_name a),
         fillna (map_option agg_amount l),
         fillna (map_option agg_amount r)))"

definition row_delta :: "merged_row \<Rightarrow> pyerror + decimal" where
  "row_delta m = (case m of (k, n1, n2, a1, a2) \<Rightarrow> dec_sub a1 a2)"

definition row_status :: "string \<Rightarrow> string \<Rightarrow> merged_row \<times> decimal \<Rightarrow> pyerror + string" where
  "row_status file1_name file2_name md =
     (case md of ((k, n1, n2, a1, a2), d) \<Rightarrow> get_status file1_name file2_name n1 n2 d)"

definition make_detail :: "(merged_row \<times> decimal) \<times> string \<Rightarrow> detail_row" where
  "make_detail x =
     (case x of (((k, n1, n2, a1, a2), d), st) \<Rightarrow>
        \<lparr>company_id = k, company_name_1 = n1, company_name_2 = n2,
         amount_1 = a1, amount_2 = a2, delta = d, status = st\<rparr>)"

text \<open>One row of \<open>detail.groupby("status", as_index=False).agg(...)\<close>.\<close>

definition summary_group :: "detail_row list \<Rightarrow> string \<Rightarrow> pyerror + summary_row" where
  "summary_group detail st =
     (let g = filter (\<lambda>r. status r = st) detail in
      case sum_decimal zero (map amount_1 g) of
        Inl e \<Rightarrow> Inl e
      | Inr t1 \<Rightarrow>
          (case sum_decimal zero (map amount_2 g) of
             Inl e \<Rightarrow> Inl e
           | Inr t2 \<Rightarrow>
               (case sum_decimal zero (map delta g) of
                  Inl e \<Rightarrow> Inl e
                | Inr td \<Rightarrow>
                    Inr \<lparr>summary_status = st, rows = length g, total_amount_1 = t1,
                         total_amount_2 = t2, total_delta = td\<rparr>)))"

definition summarise :: "detail_row list \<Rightarrow> pyerror + summary_row list" where
  "summarise detail =
     (case mapM (summary_group detail) (sort (remdups (map status detail))) of
        Inl e \<Rightarrow> Inl e
      | Inr groups \<Rightarrow> Inr (sort_key summary_status groups))"

text \<open>
  The body of \<open>compare\<close> after the two \<open>prepare\<close> calls, on the two aggregated frames
  and the two file names.
\<close>

definition reconcile ::
    "string \<Rightarrow> string \<Rightarrow> agg_row list \<Rightarrow> agg_row list \<Rightarrow> pyerror + detail_row list \<times> summary_row list" where
  "reconcile file1_name file2_name left right =
     (let merged = map filled (merge_outer left right) in
      case mapM row_delta merged of
        Inl e \<Rightarrow> Inl e
      | Inr deltas \<Rightarrow>
          (case mapM (row_status file1_name file2_name) (zip merged deltas) of
             Inl e \<Rightarrow> Inl e
           | Inr statuses \<Rightarrow>
               (let detail = sort_key company_id (map make_detail (zip (zip merged deltas) statuses)) in
                case summarise detail of
                  Inl e \<Rightarrow> Inl e
                | Inr summary \<Rightarrow> Inr (detail, summary))))"

definition compare ::
    "string \<Rightarrow> row1 list \<Rightarrow> string \<Rightarrow> row2 list \<Rightarrow> pyerror + detail_row list \<times> summary_row list" where
  "compare file1_name df1 file2_name df2 =
     (case prepare_file1 df1 of
        Inl e \<Rightarrow> Inl e
      | Inr left \<Rightarrow>
          (case prepare_file2 df2 of
             Inl e \<Rightarrow> Inl e
           | Inr right \<Rightarrow> reconcile file1_name file2_name left right))"

section \<open>Notions of the specification\<close>

text \<open>
  A bracketed group, in the words of the specification: at position \<open>i\<close> of \<open>s\<close> stand an
  opening bracket, the non-empty digit sequence \<open>ds\<close> and a closing bracket.
\<close>

definition group_at :: "string \<Rightarrow> nat \<Rightarrow> string \<Rightarrow> bool" where
  "group_at s i ds =
     (ds \<noteq> [] \<and> list_all isdigit ds \<and> take (length ds + 2) (drop i s) = CHR ''['' # ds @ '']'')"


text \<open>
  What one row of a source frame contributes: its identifier (absent when the row is
  discarded), its name and its parsed amount. They are the columns \<open>company_id\<close>,
  \<open>company_name\<close> and \<open>amount\<close> of the \<open>prepare\<close> functions, row by row, for the rows on
  which no conversion raises; \<open>readable\<close> says so of a row.
\<close>

definition text_of :: "cell \<Rightarrow> string" where
  "text_of v = (case py_str v of Inr s \<Rightarrow> s | Inl e \<Rightarrow> [])"

definition printable :: "cell \<Rightarrow> bool" where
  "printable v = (case py_str v of Inr s \<Rightarrow> True | Inl e \<Rightarrow> False)"

definition amount_of :: "cell \<Rightarrow> decimal option" where
  "amount_of v = (case parse_amount v of Inr a \<Rightarrow> a | Inl e \<Rightarrow> None)"

definition row1_id :: "row1 \<Rightarrow> string option" where
  "row1_id r = (case parse_id_from_file1 (company_raw1 r) of Inr i \<Rightarrow> map_option strip i | Inl e \<Rightarrow> None)"

definition row1_name :: "row1 \<Rightarrow> string" where
  "row1_name r = strip (text_of (company_raw1 r))"

definition readable1 :: "row1 \<Rightarrow> bool" where
  "readable1 r = (printable (company_raw1 r) \<and> printable (f1_amount r))"

definition row1_value :: "row1 \<Rightarrow> decimal option" where
  "row1_value r = amount_of (f1_amount r)"

definition row2_id :: "row2 \<Rightarrow> string option" where
  "row2_id r = (case parse_id_from_file2 (f2_raw_id r) of Inr i \<Rightarrow> map_option strip i | Inl e \<Rightarrow> None)"

definition row2_name :: "row2 \<Rightarrow> string" where
  "row2_name r = strip (text_of (company_raw2 r))"

definition readable2 :: "row2 \<Rightarrow> bool" where
  "readable2 r =
     (printable (f2_raw_id r) \<and> printable (f2_amount r) \<and>
      (row2_id r = None \<or> printable (company_raw2 r)))"

definition row2_value :: "row2 \<Rightarrow> decimal option" where
  "row2_value r = amount_of (f2_amount r)"

text \<open>The rows \<open>out\<close> of a \<open>prepare\<close> function, from the contributions of the rows.\<close>

definition out_rows ::
    "('r \<Rightarrow> string option) \<Rightarrow> ('r \<Rightarrow> decimal option) \<Rightarrow> ('r \<Rightarrow> string) \<Rightarrow> 'r list \<Rightarrow>
     (string \<times> decimal option \<times> string option) list" where
  "out_rows rid rval rname df =
     concat (map (\<lambda>r. case rid r of None \<Rightarrow> [] | Some k \<Rightarrow> [(k, rval r, Some (rname r))]) df)"

text \<open>
  The aggregation of the specification, for a frame \<open>df\<close> whose rows have the
  identifier \<open>rid\<close>, the parsed amount \<open>rval\<close> and the name \<open>rname\<close>: the output \<open>agg\<close> has
  one row per distinct identifier, in ascending order; the amount of a row is the sum
  that Python computes over the group, from \<open>Decimal("0")\<close> and without the absent
  amounts; its name is the name of the first row of the group.
\<close>

definition aggregated ::
    "('r \<Rightarrow> string option) \<Rightarrow> ('r \<Rightarrow> decimal option) \<Rightarrow> ('r \<Rightarrow> string) \<Rightarrow> 'r list \<Rightarrow> agg_row list \<Rightarrow> bool" where
  "aggregated rid rval rname df agg =
     (map agg_id agg = sort (remdups (not_none (map rid df))) \<and>
      list_all (\<lambda>a. let g = filter (\<lambda>r. rid r = Some (agg_id a)) df in
                  g \<noteq> [] \<and>
                  sum_decimal zero (not_none (map rval g)) = Inr (agg_amount a) \<and>
                  agg_name a = Some (rname (hd g))) agg)"

text \<open>The exact sum of parsed amounts, an absent amount counting as zero.\<close>

definition exact_sum :: "decimal option list \<Rightarrow> rat" where
  "exact_sum vs = (\<Sum>v\<leftarrow>vs. case v of None \<Rightarrow> 0 | Some d \<Rightarrow> dec_val d)"

text \<open>The row of an aggregated frame with a given identifier.\<close>

definition lookup :: "agg_row list \<Rightarrow> string \<Rightarrow> agg_row option" where
  "lookup t k = find (\<lambda>a. agg_id a = k) t"

text \<open>
  The detail row of the identifier \<open>k\<close> for the aggregated frames \<open>left\<close> and \<open>right\<close>:
  the names and amounts of the two sides, a side without the identifier giving no name
  and the amount zero; \<open>delta\<close> is what Python's subtraction of the two amounts returns
  and \<open>status\<close> what \<open>get_status\<close> returns.
\<close>

definition detail_of ::
    "string \<Rightarrow> string \<Rightarrow> agg_row list \<Rightarrow> agg_row list \<Rightarrow> string \<Rightarrow> detail_row \<Rightarrow> bool" where
  "detail_of file1_name file2_name left right k r =
     (company_id r = k \<and>
      company_name_1 r = (case lookup left k of None \<Rightarrow> None | Some a \<Rightarrow> agg_name a) \<and>
      company_name_2 r = (case lookup right k of None \<Rightarrow> None | Some a \<Rightarrow> agg_name a) \<and>
      amount_1 r = fillna (map_option agg_amount (lookup left k)) \<and>
      amount_2 r = fillna (map_option agg_amount (lookup right k)) \<and>
      dec_sub (amount_1 r) (amount_2 r) = Inr (delta r) \<and>
      get_status file1_name file2_name (company_name_1 r) (company_name_2 r) (delta r) = Inr (status r))"

text \<open>
  The summary of the specification for a detail table: one row per distinct status, in
  ascending order, with the number of rows of the group and the sums that Python
  computes over the group, from \<open>Decimal("0")\<close>.
\<close>

definition summarised :: "detail_row list \<Rightarrow> summary_row list \<Rightarrow> bool" where
  "summarised detail summary =
     (map summary_status summary = sort (remdups (map status detail)) \<and>
      list_all (\<lambda>s. let g = filter (\<lambda>r. status r = summary_status s) detail in
                  rows s = length g \<and>
                  sum_decimal zero (map amount_1 g) = Inr (total_amount_1 s) \<and>
                  sum_decimal zero (map amount_2 g) = Inr (total_amount_2 s) \<and>
                  sum_decimal zero (map delta g) = Inr (total_delta s)) summary)"

text \<open>
  Amounts within the working precision. A decimal is \<open>tame q\<close> when it is finite with
  an exponent between \<open>-q\<close> and \<open>Etop\<close>, so that it is a whole number of units of
  \<open>10\<^sup>-\<^sup>q\<close>; \<open>units q\<close> is that number. A list of decimals \<open>fits q\<close> when all of
  them are tame and the absolute values of their units add up to less than \<open>10\<^sup>2\<^sup>8\<close>:
  then no sum or difference of them needs more than the 28 digits of the context.
\<close>

definition tame :: "nat \<Rightarrow> decimal \<Rightarrow> bool" where
  "tame q d = (case d of Finite s c e \<Rightarrow> - int q \<le> e \<and> e \<le> Etop | _ \<Rightarrow> False)"

definition sg :: "bool \<Rightarrow> int" where
  "sg s = (if s then - 1 else 1)"

definition units :: "nat \<Rightarrow> decimal \<Rightarrow> int" where
  "units q d =
     (case d of
        Finite s c e \<Rightarrow> sg s * int (c * 10 ^ nat (e + int q))
      | _ \<Rightarrow> 0)"

definition fits :: "nat \<Rightarrow> decimal list \<Rightarrow> bool" where
  "fits q ds =
     (int q \<le> - Etiny \<and> list_all (tame q) ds \<and> (\<Sum>d\<leftarrow>ds. \<bar>units q d\<bar>) < 10 ^ prec)"

section \<open>Example frames\<close>

text \<open>
  Two small source frames, used to evaluate the functions. In the first, two rows carry
  the identifier 12, one row names no identifier in column D and falls back to column C,
  and two rows (an empty one and a total) have no identifier. In the second, the row of
  identifier 9 has no name in either name column, and one identifier is a number.
\<close>

definition ex_df1 :: "row1 list" where
  "ex_df1 =
     [\<lparr>f1_name_c = PyNaN, f1_name_d = PyStr ''Acme [12]'', f1_amount = PyStr ''100,50''\<rparr>,
      \<lparr>f1_name_c = PyStr ''Other [7]'', f1_name_d = PyNaN, f1_amount = PyFloat ''50.0''\<rparr>,
      \<lparr>f1_name_c = PyStr ''zzz'', f1_name_d = PyStr '' Acme Corp [12] '', f1_amount = PyInt 3\<rparr>,
      \<lparr>f1_name_c = PyNaN, f1_name_d = PyNaN, f1_amount = PyInt 5\<rparr>,
      \<lparr>f1_name_c = PyNaN, f1_name_d = PyStr ''Total'', f1_amount = PyInt 500\<rparr>]"

definition ex_df2 :: "row2 list" where
  "ex_df2 =
     [\<lparr>f2_raw_id = PyStr ''12,000'', f2_name_b = PyNaN, f2_name_c = PyStr ''Acme'', f2_amount = PyStr ''103.50''\<rparr>,
      \<lparr>f2_raw_id = PyStr ''9,000'', f2_name_b = PyNaN, f2_name_c = PyNaN, f2_amount = PyInt 10\<rparr>,
      \<lparr>f2_raw_id = PyNaN, f2_name_b = PyNaN, f2_name_c = PyStr ''Total'', f2_amount = PyInt 10\<rparr>,
      \<lparr>f2_raw_id = PyInt 10, f2_name_b = PyStr ''B'', f2_name_c = PyNaN, f2_amount = PyStr ''x''\<rparr>]"

text \<open>What the program computes from them.\<close>

definition ex_left :: "agg_row list" where
  "ex_left =
     [\<lparr>agg_id = ''12'', agg_amount = Finite False 10350 (- 2), agg_name = Some ''Acme [12]''\<rparr>,
      \<lparr>agg_id = ''7'', agg_amount = Finite False 500 (- 1), agg_name = Some ''Other [7]''\<rparr>]"

definition ex_right :: "agg_row list" where
  "ex_right =
     [\<lparr>agg_id = ''10'', agg_amount = Finite False 0 0, agg_name = Some ''B''\<rparr>,
      \<lparr>agg_id = ''12'', agg_amount = Finite False 10350 (- 2), agg_name = Some ''Acme''\<rparr>,
      \<lparr>agg_id = ''9'', agg_amount = Finite False 10 0, agg_name = Some ''nan''\<rparr>]"

definition ex_detail :: "detail_row list" where
  "ex_detail =
     [\<lparr>company_id = ''10'', company_name_1 = None, company_name_2 = Some ''B'',
       amount_1 = Finite False 0 0, amount_2 = Finite False 0 0, delta = Finite False 0 0,
       status = ''only_file_1C.xlsx''\<rparr>,
      \<lparr>company_id = ''12'', company_name_1 = Some ''Acme [12]'', company_name_2 = Some ''Acme'',
       amount_1 = Finite False 10350 (- 2), amount_2 = Finite False 10350 (- 2),
       delta = Finite False 0 (- 2), status = ''MATCH''\<rparr>,
      \<lparr>company_id = ''7'', company_name_1 = Some ''Other [7]'', company_name_2 = None,
       amount_1 = Finite False 500 (- 1), amount_2 = Finite False 0 0,
       delta = Finite False 500 (- 1), status = ''only_file_OC.xlsx''\<rparr>,
      \<lparr>company_id = ''9'', company_name_1 = None, company_name_2 = Some ''nan'',
       amount_1 = Finite False 0 0, amount_2 = Finite False 10 0, delta = Finite True 10 0,
       status = ''only_file_1C.xlsx''\<rparr>]"

definition ex_summary :: "summary_row list" where
  "ex_summary =
     [\<lparr>summary_status = ''MATCH'', rows = 1, total_amount_1 = Finite False 10350 (- 2),
       total_amount_2 = Finite False 10350 (- 2), total_delta = Finite False 0 (- 2)\<rparr>,
      \<lparr>summary_status = ''only_file_1C.xlsx'', rows = 2, total_amount_1 = Finite False 0 0,
       total_amount_2 = Finite False 10 0, total_delta = Finite True 10 0\<rparr>,
      \<lparr>summary_status = ''only_file_OC.xlsx'', rows = 1, total_amount_1 = Finite False 500 (- 1),
       total_amount_2 = Finite False 0 0, total_delta = Finite False 500 (- 1)\<rparr>]"

section \<open>Strings and the parsers\<close>

lemma replace_filter: "replace old [] s = filter (\<lambda>c. c \<noteq> old) s"
  by (induction s) (simp_all add: replace_def)

lemma replace_map: "replace old [new] s = map (\<lambda>c. if c = old then new else c) s"
  by (induction s) (simp_all add: replace_def)

lemma in_dropWhile: "x \<in> set xs \<Longrightarrow> \<not> P x \<Longrightarrow> x \<in> set (dropWhile P xs)"
  by (induction xs) auto

lemma strip_subset: "set (strip s) \<subseteq> set s"
  by (auto simp: strip_def dest!: set_dropWhileD)

lemma strip_keeps: "c \<in> set s \<Longrightarrow> \<not> isspace c \<Longrightarrow> c \<in> set (strip s)"
  by (simp add: strip_def in_dropWhile)

lemma dropWhile_all_Nil: "(\<forall>x\<in>set (dropWhile P xs). P x) \<longleftrightarrow> dropWhile P xs = []"
proof
  assume a: "\<forall>x\<in>set (dropWhile P xs). P x"
  show "dropWhile P xs = []"
  proof (rule ccontr)
    assume n: "dropWhile P xs \<noteq> []"
    then have "\<not> P (hd (dropWhile P xs))" by (rule hd_dropWhile)
    moreover have "hd (dropWhile P xs) \<in> set (dropWhile P xs)" using n by simp
    ultimately show False using a by blast
  qed
qed (auto dest: set_dropWhileD)

lemma strip_empty: "strip s = [] \<longleftrightarrow> list_all isspace s"
proof -
  have "strip s = [] \<longleftrightarrow> dropWhile isspace (rev (dropWhile isspace s)) = []"
    by (simp add: strip_def)
  also have "\<dots> \<longleftrightarrow> (\<forall>x\<in>set (dropWhile isspace s). isspace x)"
    by (simp only: dropWhile_eq_Nil_conv set_rev)
  also have "\<dots> \<longleftrightarrow> dropWhile isspace s = []" by (rule dropWhile_all_Nil)
  also have "\<dots> \<longleftrightarrow> list_all isspace s" by (simp add: dropWhile_eq_Nil_conv list_all_iff)
  finally show ?thesis .
qed

lemma strip_id: "s = [] \<or> (\<not> isspace (hd s) \<and> \<not> isspace (last s)) \<Longrightarrow> strip s = s"
  by (metis dropWhile_eq_self_iff hd_rev rev.simps(1) rev_rev_ident strip_def)

lemma strip_ends: "strip s \<noteq> [] \<Longrightarrow> \<not> isspace (hd (strip s)) \<and> \<not> isspace (last (strip s))"
proof -
  assume n: "strip s \<noteq> []"
  let ?b = "dropWhile isspace s"
  let ?t = "dropWhile isspace (rev ?b)"
  have t: "?t \<noteq> []" using n by (simp add: strip_def)
  have b: "?b \<noteq> []"
  proof
    assume "?b = []"
    then have "?t = []" by (simp only: rev.simps dropWhile.simps)
    with t show False by (simp only:)
  qed
  have "\<not> isspace (hd ?t)" using t by (rule hd_dropWhile)
  then have l: "\<not> isspace (last (strip s))" using t by (simp add: strip_def last_rev)
  have "\<not> isspace (hd ?b)" using b by (rule hd_dropWhile)
  then have "\<not> isspace (last (rev ?b))" using b by (simp add: last_rev)
  moreover have "last ?t = last (rev ?b)"
    using t by (metis append_Nil2 last_appendR takeWhile_dropWhile_id)
  ultimately have "\<not> isspace (hd (strip s))" using t by (simp add: strip_def hd_rev)
  with l show ?thesis by simp
qed

lemma strip_idem: "strip (strip s) = strip s"
  using strip_ends [of s] strip_id [of "strip s"] by blast

lemma strip_map:
  assumes "\<And>c. isspace (f c) = isspace c"
  shows "strip (map f s) = map f (strip s)"
proof -
  have "isspace \<circ> f = isspace" using assms by (simp add: fun_eq_iff)
  then show ?thesis by (simp add: strip_def dropWhile_map rev_map)
qed

lemma ndigits_rec: "ndigits c = (if c < 10 then 1 else ndigits (c div 10) + 1)"
  unfolding ndigits_def by (subst str_nat.simps) simp

lemma ndigits_pow10: "ndigits (10 ^ n) = Suc n"
proof (induction n)
  case 0
  have "ndigits 1 = 1" by (subst ndigits_rec) simp
  then show ?case by simp
next
  case (Suc n)
  have "\<not> (10::nat) ^ Suc n < 10" by simp
  then have "ndigits (10 ^ Suc n) = ndigits (10 ^ Suc n div 10) + 1"
    by (simp only: ndigits_rec [of "10 ^ Suc n"] if_False)
  then show ?case using Suc by simp
qed

lemma py_str_error:
  "py_str v = Inl e \<longleftrightarrow> e = ValueError \<and> (\<exists>i. v = PyInt i \<and> int_max_str_digits < ndigits (nat \<bar>i\<bar>))"
  by (cases v) auto

lemma py_str_pow10: "int_max_str_digits \<le> n \<Longrightarrow> py_str (PyInt (10 ^ n)) = Inl ValueError"
proof -
  assume a: "int_max_str_digits \<le> n"
  have n: "nat \<bar>(10::int) ^ n\<bar> = 10 ^ n" by (simp add: nat_power_eq)
  have "int_max_str_digits < ndigits (nat \<bar>(10::int) ^ n\<bar>)"
    unfolding n ndigits_pow10 using a by simp
  then show ?thesis by (simp only: py_str.simps if_True)
qed

lemma printable_iff: "printable v \<longleftrightarrow> (\<exists>s. py_str v = Inr s)"
  by (simp add: printable_def split: sum.splits)

lemma printable_text_of: "printable v \<Longrightarrow> py_str v = Inr (text_of v)"
  by (simp add: printable_def text_of_def split: sum.splits)

lemma printable_missing: "is_missing v \<Longrightarrow> printable v"
  by (auto simp: is_missing_def printable_def)

lemma Decimal_error: "Decimal s = Inl e \<Longrightarrow> e = InvalidOperation"
  by (auto simp: Decimal_def split: prod.splits option.splits if_splits)

lemma parse_amount_text:
  "parse_amount (PyStr t) =
     (let text = filter (\<lambda>c. c \<noteq> CHR '' '') (strip t) in
      if text = [] then Inr None
      else (case Decimal (map (\<lambda>c. if c = CHR '','' then CHR ''.'' else c) text) of
              Inr d \<Rightarrow> Inr (Some d) | Inl e \<Rightarrow> Inr None))"
  by (auto simp: parse_amount_def replace_filter replace_map Let_def
      split: sum.splits pyerror.splits dest: Decimal_error)

lemma parse_amount_raises: "parse_amount v = Inl e \<longleftrightarrow> py_str v = Inl e"
  by (auto simp: parse_amount_def Let_def split: sum.splits pyerror.splits dest: Decimal_error)

lemma parse_amount_pow10: "int_max_str_digits \<le> n \<Longrightarrow> parse_amount (PyInt (10 ^ n)) = Inl ValueError"
  unfolding parse_amount_raises by (rule py_str_pow10)

lemma filter_space_map:
  "filter (\<lambda>c. c \<noteq> CHR '' '') (map (\<lambda>c. if c = CHR '','' then CHR ''.'' else c) s) =
   map (\<lambda>c. if c = CHR '','' then CHR ''.'' else c) (filter (\<lambda>c. c \<noteq> CHR '' '') s)"
  by (induction s) simp_all

lemma isspace_comma_period: "isspace (if c = CHR '','' then CHR ''.'' else c) = isspace c"
  by (simp add: isspace_def)

text \<open>no comma in a numeric string\<close>

lemma split_sign_set: "split_sign s = (b, r) \<Longrightarrow> c \<in> set s \<Longrightarrow> c \<noteq> CHR ''-'' \<Longrightarrow> c \<noteq> CHR ''+'' \<Longrightarrow> c \<in> set r"
  by (auto simp: split_sign_def split: list.splits if_splits)

lemma comma_facts: "\<not> isdigit (CHR '','')" "\<not> isspace (CHR '','')" "lower (CHR '','') = CHR '',''"
  by (simp_all add: isdigit_def isspace_def lower_def)

lemma parse_exponent_comma: "CHR '','' \<in> set s \<Longrightarrow> parse_exponent s = None"
proof (cases s)
  case Nil
  assume "CHR '','' \<in> set s" with Nil show ?thesis by simp
next
  case (Cons c cs)
  assume m: "CHR '','' \<in> set s"
  show ?thesis
  proof (cases "lower c = CHR ''e''")
    case False
    with Cons show ?thesis by (simp add: parse_exponent_def)
  next
    case True
    then have "c \<noteq> CHR '',''" using comma_facts(3) by auto
    with m Cons have mc: "CHR '','' \<in> set cs" by auto
    obtain neg ds where sp: "split_sign cs = (neg, ds)" by (cases "split_sign cs")
    from split_sign_set [OF sp mc] have "CHR '','' \<in> set ds" by simp
    then have "\<not> list_all isdigit ds" using comma_facts(1) by (auto simp: list_all_iff)
    with Cons True sp show ?thesis by (simp add: parse_exponent_def)
  qed
qed

lemma in_dropWhile_digit: "CHR '','' \<in> set s \<Longrightarrow> CHR '','' \<in> set (dropWhile isdigit s)"
  by (rule in_dropWhile) (simp_all add: comma_facts)

lemma parse_finite_comma: "CHR '','' \<in> set s \<Longrightarrow> parse_finite s = None"
proof -
  assume m: "CHR '','' \<in> set s"
  let ?r1 = "dropWhile isdigit s"
  have m1: "CHR '','' \<in> set ?r1" using m by (rule in_dropWhile_digit)
  then obtain c cs where r1: "?r1 = c # cs" by (cases ?r1) auto
  show ?thesis
  proof (cases "c = CHR ''.''")
    case True
    with m1 r1 have "CHR '','' \<in> set cs" by auto
    then have "CHR '','' \<in> set (dropWhile isdigit cs)" by (rule in_dropWhile_digit)
    then have "parse_exponent (dropWhile isdigit cs) = None" by (rule parse_exponent_comma)
    with r1 True show ?thesis by (simp add: parse_finite_def Let_def)
  next
    case False
    have "parse_exponent ?r1 = None" using m1 by (rule parse_exponent_comma)
    with r1 False show ?thesis by (simp add: parse_finite_def Let_def)
  qed
qed

lemma parse_special_comma: "CHR '','' \<in> set s \<Longrightarrow> parse_special sign s = None"
proof -
  assume m: "CHR '','' \<in> set s"
  let ?t = "map lower s"
  have mt: "CHR '','' \<in> set ?t" using m comma_facts(3) by (metis image_eqI set_map)
  have a: "?t \<noteq> ''inf''" "?t \<noteq> ''infinity''" using mt by auto
  have b: "\<not> (take 3 ?t = ''nan'' \<and> list_all isdigit (drop 3 ?t))"
  proof
    assume h: "take 3 ?t = ''nan'' \<and> list_all isdigit (drop 3 ?t)"
    have "set ?t = set (take 3 ?t) \<union> set (drop 3 ?t)" by (metis append_take_drop_id set_append)
    with mt h comma_facts(1) show False by (auto simp: list_all_iff)
  qed
  have c: "\<not> (take 4 ?t = ''snan'' \<and> list_all isdigit (drop 4 ?t))"
  proof
    assume h: "take 4 ?t = ''snan'' \<and> list_all isdigit (drop 4 ?t)"
    have "set ?t = set (take 4 ?t) \<union> set (drop 4 ?t)" by (metis append_take_drop_id set_append)
    with mt h comma_facts(1) show False by (auto simp: list_all_iff)
  qed
  show ?thesis using a b c by (auto simp: parse_special_def Let_def)
qed

lemma Decimal_no_comma: "Decimal s = Inr d \<Longrightarrow> CHR '','' \<notin> set s"
proof
  assume d: "Decimal s = Inr d" and m: "CHR '','' \<in> set s"
  have "CHR '','' \<in> set (strip s)" using m comma_facts(2) by (rule strip_keeps)
  then have m2: "CHR '','' \<in> set (replace (CHR ''_'') [] (strip s))" by (simp add: replace_filter)
  obtain sign r where sp: "split_sign (replace (CHR ''_'') [] (strip s)) = (sign, r)"
    by (cases "split_sign (replace (CHR ''_'') [] (strip s))")
  have "CHR '','' \<in> set r" using split_sign_set [OF sp m2] by simp
  then have "parse_finite r = None" "parse_special sign r = None"
    by (simp_all add: parse_finite_comma parse_special_comma)
  with sp d show False by (simp add: Decimal_def)
qed

lemma Decimal_Nil: "Decimal [] = Inl InvalidOperation"
  by (simp add: Decimal_def strip_def replace_def split_sign_def parse_finite_def parse_special_def)

lemmas ev = parse_amount_def strip_def isspace_def replace_def Decimal_def split_sign_def
  parse_finite_def isdigit_def parse_exponent_def lower_def parse_special_def nat_of_digits_def
  parse_id_from_file1_def match_here_def parse_id_from_file2_def item0_def Let_def
  MAX_PREC_def MAX_EMAX_def MIN_ETINY_def int_max_str_digits_def ndigits_rec

lemma parse_amount_cases:
  "\<not> is_missing v \<Longrightarrow> py_str v = Inr s \<Longrightarrow> parse_amount v =
     (let text = filter (\<lambda>c. c \<noteq> CHR '' '') (strip s) in
      if text = [] then Inr None
      else (case Decimal (map (\<lambda>c. if c = CHR '','' then CHR ''.'' else c) text) of
              Inr d \<Rightarrow> Inr (Some d) | Inl e \<Rightarrow> Inr None))"
  by (auto simp: parse_amount_def is_missing_def replace_filter replace_map Let_def
      split: sum.splits pyerror.splits dest: Decimal_error)

lemma space_is_space: "isspace (CHR '' '')"
  by (simp add: isspace_def)

text \<open>
  Claim C8 as stated fails: \<open>str(value)\<close> stands before the \<open>try\<close> statement, and for
  an \<open>int\<close> of more than 4300 digits it raises \<open>ValueError\<close>, which \<open>parse_amount\<close>
  does not catch. \<open>10 ^ 4300\<close> is the least such \<open>int\<close>.
\<close>

theorem parse_amount_raises_counterexample:
  "parse_amount (PyInt (10 ^ 4300)) = Inl ValueError"
  by (rule parse_amount_pow10) (simp add: int_max_str_digits_def)

text \<open>
  Claim C8, amended: \<open>parse_amount\<close> returns a decimal or absent, and raises nothing, for
  every cell whose \<open>str\<close> is defined, that is, for every cell but an \<open>int\<close> of more than
  4300 digits, for which it raises \<open>ValueError\<close>. A missing cell, an empty text and a text
  of white space only give absent; and a cleaned text that \<open>Decimal\<close> rejects gives
  absent, not an error.
\<close>

theorem parse_amount_total:
  "(py_str v = Inr s \<longrightarrow> (\<exists>r. parse_amount v = Inr r))
   \<and> ((\<forall>i. v = PyInt i \<longrightarrow> ndigits (nat \<bar>i\<bar>) \<le> int_max_str_digits) \<longrightarrow> (\<exists>r. parse_amount v = Inr r))
   \<and> (parse_amount v = Inl e \<longrightarrow>
         e = ValueError \<and> (\<exists>i. v = PyInt i \<and> int_max_str_digits < ndigits (nat \<bar>i\<bar>)))
   \<and> (is_missing v \<longrightarrow> parse_amount v = Inr None)
   \<and> (py_str v = Inr s \<and> list_all isspace s \<longrightarrow> parse_amount v = Inr None)
   \<and> (py_str v = Inr s \<and>
        Decimal (replace (CHR '','') ''.'' (replace (CHR '' '') [] (strip s))) = Inl e'
          \<longrightarrow> parse_amount v = Inr None)"
proof (intro conjI impI)
  assume "py_str v = Inr s"
  then have "\<And>e. parse_amount v \<noteq> Inl e" by (simp add: parse_amount_raises)
  then show "\<exists>r. parse_amount v = Inr r" by (cases "parse_amount v") auto
next
  assume a: "\<forall>i. v = PyInt i \<longrightarrow> ndigits (nat \<bar>i\<bar>) \<le> int_max_str_digits"
  have "\<And>e. parse_amount v \<noteq> Inl e"
  proof
    fix e assume "parse_amount v = Inl e"
    then have "py_str v = Inl e" by (simp only: parse_amount_raises)
    then obtain i where "v = PyInt i" "int_max_str_digits < ndigits (nat \<bar>i\<bar>)"
      unfolding py_str_error by blast
    with a show False by auto
  qed
  then show "\<exists>r. parse_amount v = Inr r" by (cases "parse_amount v") auto
next
  assume "parse_amount v = Inl e"
  then have "py_str v = Inl e" by (simp only: parse_amount_raises)
  then have r: "e = ValueError \<and> (\<exists>i. v = PyInt i \<and> int_max_str_digits < ndigits (nat \<bar>i\<bar>))"
    by (simp only: py_str_error)
  show "e = ValueError" using r by (rule conjunct1)
  show "\<exists>i. v = PyInt i \<and> int_max_str_digits < ndigits (nat \<bar>i\<bar>)" using r by (rule conjunct2)
next
  assume "is_missing v"
  then show "parse_amount v = Inr None" by (auto simp: is_missing_def parse_amount_def)
next
  assume h: "py_str v = Inr s \<and> list_all isspace s"
  then have "strip s = []" by (simp add: strip_empty)
  with h show "parse_amount v = Inr None" by (simp add: parse_amount_def replace_def)
next
  assume "py_str v = Inr s \<and>
        Decimal (replace (CHR '','') ''.'' (replace (CHR '' '') [] (strip s))) = Inl e'"
  then show "parse_amount v = Inr None"
    by (auto simp: parse_amount_def Let_def dest: Decimal_error)
qed

theorem parse_amount_total_witness:
  "is_missing PyNaN \<and> parse_amount PyNaN = Inr None
   \<and> py_str (PyStr [CHR 0x09, CHR '' '']) = Inr [CHR 0x09, CHR '' '']
   \<and> list_all isspace [CHR 0x09, CHR '' ''] \<and> parse_amount (PyStr [CHR 0x09, CHR '' '']) = Inr None
   \<and> py_str (PyStr ''12 x'') = Inr ''12 x''
   \<and> Decimal (replace (CHR '','') ''.'' (replace (CHR '' '') [] (strip ''12 x''))) = Inl InvalidOperation
   \<and> parse_amount (PyStr ''12 x'') = Inr None
   \<and> py_str (PyInt 12) = Inr ''12'' \<and> parse_amount (PyInt 12) = Inr (Some (Finite False 12 0))
   \<and> (\<exists>r. parse_amount (PyFloat ''12.5'') = Inr r)
   \<and> parse_amount (PyInt (10 ^ 4300)) = Inl ValueError
   \<and> int_max_str_digits < ndigits (nat \<bar>10 ^ 4300\<bar>)"
proof -
  have h1: "is_missing PyNaN" by (simp add: is_missing_def)
  have h2: "list_all isspace [CHR 0x09, CHR '' '']" by (simp add: isspace_def)
  have h3: "Decimal (replace (CHR '','') ''.'' (replace (CHR '' '') [] (strip ''12 x''))) = Inl InvalidOperation"
    by (simp add: ev)
  have h4: "py_str (PyInt 12) = Inr ''12''"
    by (simp add: ev str_int_def str_nat.simps digit_char_def)
  have h5: "parse_amount (PyInt 12) = Inr (Some (Finite False 12 0))"
    by (simp add: ev str_int_def str_nat.simps digit_char_def)
  have h6: "\<forall>i. PyFloat ''12.5'' = PyInt i \<longrightarrow> ndigits (nat \<bar>i\<bar>) \<le> int_max_str_digits" by simp
  have h7: "parse_amount (PyInt (10 ^ 4300)) = Inl ValueError"
    by (rule parse_amount_pow10) (simp add: int_max_str_digits_def)
  have a: "parse_amount PyNaN = Inr None"
    using h1 parse_amount_total [of PyNaN] by blast
  have b: "parse_amount (PyStr [CHR 0x09, CHR '' '']) = Inr None"
    using h2 parse_amount_total [of "PyStr [CHR 0x09, CHR '' '']" "[CHR 0x09, CHR '' '']"] by simp
  have c: "parse_amount (PyStr ''12 x'') = Inr None"
    using h3 parse_amount_total [of "PyStr ''12 x''" "''12 x''" _ InvalidOperation] by simp
  have d: "\<exists>r. parse_amount (PyFloat ''12.5'') = Inr r"
    using h6 parse_amount_total [of "PyFloat ''12.5''"] by blast
  have "\<exists>i. PyInt (10 ^ 4300) = PyInt i \<and> int_max_str_digits < ndigits (nat \<bar>i\<bar>)"
    using h7 parse_amount_total [of "PyInt (10 ^ 4300)" _ ValueError] by blast
  then have e: "int_max_str_digits < ndigits (nat \<bar>10 ^ 4300\<bar>)" by blast
  show ?thesis
    by (intro conjI) (rule h1 h2 h3 h4 h5 h7 a b c d e py_str.simps)+
qed

text \<open>
  Claim C4: a text with commas and the same text with periods in their place parse to
  the same result, and a text without white space whose period form is a valid decimal
  parses to that decimal; \<open>parse_amount("123,45")\<close>, \<open>parse_amount("123.45")\<close> and
  \<open>Decimal("123.45")\<close> are the same decimal.
\<close>

theorem parse_amount_comma_period:
  "parse_amount (PyStr (replace (CHR '','') ''.'' t)) = parse_amount (PyStr t)
   \<and> (list_all (\<lambda>c. \<not> isspace c) t \<and> Decimal (replace (CHR '','') ''.'' t) = Inr d
        \<longrightarrow> parse_amount (PyStr t) = Inr (Some d))
   \<and> parse_amount (PyStr ''123,45'') = Inr (Some (Finite False 12345 (- 2)))
   \<and> parse_amount (PyStr ''123.45'') = Inr (Some (Finite False 12345 (- 2)))
   \<and> Decimal ''123.45'' = Inr (Finite False 12345 (- 2))"
proof (intro conjI impI)
  let ?m = "\<lambda>c. if c = CHR '','' then CHR ''.'' else c"
  have idem: "\<And>s. map ?m (map ?m s) = map ?m s" by simp
  show "parse_amount (PyStr (replace (CHR '','') ''.'' t)) = parse_amount (PyStr t)"
    unfolding parse_amount_text replace_map strip_map [of ?m, OF isspace_comma_period]
      filter_space_map Let_def idem
    by simp
next
  assume h: "list_all (\<lambda>c. \<not> isspace c) t \<and> Decimal (replace (CHR '','') ''.'' t) = Inr d"
  then have ns: "\<forall>c\<in>set t. \<not> isspace c" by (simp add: list_all_iff)
  from h have ne: "t \<noteq> []" by (auto simp: replace_def Decimal_Nil)
  with ns have "strip t = t" by (intro strip_id) simp
  moreover have "filter (\<lambda>c. c \<noteq> CHR '' '') t = t"
    using ns space_is_space by (intro filter_True) auto
  ultimately show "parse_amount (PyStr t) = Inr (Some d)"
    using h ne by (simp add: parse_amount_text replace_map)
next
  show "parse_amount (PyStr ''123,45'') = Inr (Some (Finite False 12345 (- 2)))" by (simp add: ev)
next
  show "parse_amount (PyStr ''123.45'') = Inr (Some (Finite False 12345 (- 2)))" by (simp add: ev)
next
  show "Decimal ''123.45'' = Inr (Finite False 12345 (- 2))" by (simp add: ev)
qed

theorem parse_amount_comma_period_witness:
  "list_all (\<lambda>c. \<not> isspace c) ''-0,5e3'' \<and> Decimal (replace (CHR '','') ''.'' ''-0,5e3'') = Inr (Finite True 5 2)
   \<and> parse_amount (PyStr ''-0,5e3'') = Inr (Some (Finite True 5 2))
   \<and> parse_amount (PyStr (replace (CHR '','') ''.'' ''-0,5e3'')) = parse_amount (PyStr ''-0,5e3'')"
proof -
  have h1: "list_all (\<lambda>c. \<not> isspace c) ''-0,5e3''" by (simp add: isspace_def)
  have h2: "Decimal (replace (CHR '','') ''.'' ''-0,5e3'') = Inr (Finite True 5 2)" by (simp add: ev)
  show ?thesis
    using h1 h2 parse_amount_comma_period [of "''-0,5e3''" "Finite True 5 2"] by blast
qed

text \<open>
  Claim C5 as stated fails: only the space character is removed inside the text. With a
  tab between the digits the text is a valid decimal once all white space is removed,
  and \<open>parse_amount\<close> returns absent.
\<close>

theorem parse_amount_whitespace_counterexample:
  "\<not> (\<forall>v s d. py_str v = Inr s \<and> Decimal (filter (\<lambda>c. \<not> isspace c) s) = Inr d
         \<longrightarrow> parse_amount v = Inr (Some d))"
proof
  assume a: "\<forall>v s d. py_str v = Inr s \<and> Decimal (filter (\<lambda>c. \<not> isspace c) s) = Inr d
         \<longrightarrow> parse_amount v = Inr (Some d)"
  let ?s = "''1'' @ [CHR 0x09] @ ''234.56''"
  let ?v = "PyStr ?s"
  have "py_str ?v = Inr ?s" by simp
  moreover have "Decimal (filter (\<lambda>c. \<not> isspace c) ?s) = Inr (Finite False 123456 (- 2))" by (simp add: ev)
  ultimately have "parse_amount ?v = Inr (Some (Finite False 123456 (- 2)))" using a by blast
  moreover have "parse_amount ?v = Inr None" by (simp add: ev)
  ultimately show False by simp
qed

text \<open>
  Claim C5, amended: the text is stripped of leading and trailing white space and of
  every space character. Every cell that is not missing and whose text is a valid
  decimal after that parses to that decimal; \<open>parse_amount("1 234.56")\<close> is
  \<open>Decimal("1234.56")\<close>.
\<close>

theorem parse_amount_strips_spaces:
  "(\<not> is_missing v \<and> py_str v = Inr s \<and> Decimal (filter (\<lambda>c. c \<noteq> CHR '' '') (strip s)) = Inr d
      \<longrightarrow> parse_amount v = Inr (Some d))
   \<and> parse_amount (PyStr ''1 234.56'') = Inr (Some (Finite False 123456 (- 2)))
   \<and> Decimal ''1234.56'' = Inr (Finite False 123456 (- 2))"
proof (intro conjI impI)
  let ?text = "filter (\<lambda>c. c \<noteq> CHR '' '') (strip s)"
  assume h: "\<not> is_missing v \<and> py_str v = Inr s \<and> Decimal ?text = Inr d"
  then have ne: "?text \<noteq> []" using Decimal_Nil by auto
  have "CHR '','' \<notin> set ?text" using h Decimal_no_comma by blast
  then have "map (\<lambda>c. if c = CHR '','' then CHR ''.'' else c) ?text = ?text"
    by (intro map_idI) auto
  then show "parse_amount v = Inr (Some d)"
    using h ne by (simp add: parse_amount_cases [of v s] Let_def)
next
  show "parse_amount (PyStr ''1 234.56'') = Inr (Some (Finite False 123456 (- 2)))" by (simp add: ev)
next
  show "Decimal ''1234.56'' = Inr (Finite False 123456 (- 2))" by (simp add: ev)
qed

theorem parse_amount_strips_spaces_witness:
  "\<not> is_missing (PyStr '' 1 234.56 '')
   \<and> py_str (PyStr '' 1 234.56 '') = Inr '' 1 234.56 ''
   \<and> Decimal (filter (\<lambda>c. c \<noteq> CHR '' '') (strip '' 1 234.56 '')) = Inr (Finite False 123456 (- 2))
   \<and> parse_amount (PyStr '' 1 234.56 '') = Inr (Some (Finite False 123456 (- 2)))"
proof -
  have h1: "\<not> is_missing (PyStr '' 1 234.56 '')" by (simp add: is_missing_def)
  have h2: "Decimal (filter (\<lambda>c. c \<noteq> CHR '' '') (strip '' 1 234.56 '')) = Inr (Finite False 123456 (- 2))"
    by (simp add: ev)
  have h3: "py_str (PyStr '' 1 234.56 '') = Inr '' 1 234.56 ''" by simp
  have "parse_amount (PyStr '' 1 234.56 '') = Inr (Some (Finite False 123456 (- 2)))"
    using h1 h2 h3 parse_amount_strips_spaces [of "PyStr '' 1 234.56 ''" "'' 1 234.56 ''" "Finite False 123456 (- 2)"]
    by blast
  with h1 h2 h3 show ?thesis by blast
qed

lemma bracket_not_digit: "\<not> isdigit (CHR '']'')"
  by (simp add: isdigit_def)

lemma takeWhile_digits_bracket:
  "list_all isdigit ds \<Longrightarrow> takeWhile isdigit (ds @ CHR '']'' # r) = ds"
  by (induction ds) (simp_all add: bracket_not_digit)

lemma dropWhile_digits_bracket:
  "list_all isdigit ds \<Longrightarrow> dropWhile isdigit (ds @ CHR '']'' # r) = CHR '']'' # r"
  by (induction ds) (simp_all add: bracket_not_digit)

lemma group_at_0: "group_at s 0 ds \<longleftrightarrow> match_here s = Some ds"
proof
  assume g: "group_at s 0 ds"
  then have t: "take (length ds + 2) s = CHR ''['' # ds @ '']''" and d: "list_all isdigit ds" and ne: "ds \<noteq> []"
    by (simp_all add: group_at_def)
  have "s = (CHR ''['' # ds @ '']'') @ drop (length ds + 2) s"
    using t by (metis append_take_drop_id)
  then obtain r where s: "s = CHR ''['' # ds @ CHR '']'' # r" by auto
  show "match_here s = Some ds"
    by (subst s) (simp add: match_here_def takeWhile_digits_bracket [OF d] dropWhile_digits_bracket [OF d] ne)
next
  assume m: "match_here s = Some ds"
  then obtain cs where s: "s = CHR ''['' # cs"
    by (cases s) (auto simp: match_here_def split: if_splits)
  from m s have ds: "ds = takeWhile isdigit cs" and ne: "ds \<noteq> []"
    by (auto simp: match_here_def Let_def split: if_splits)
  from m s obtain r where r: "dropWhile isdigit cs = CHR '']'' # r"
    by (auto simp: match_here_def Let_def split: if_splits list.splits)
  have cs: "cs = ds @ CHR '']'' # r" using ds r by (metis takeWhile_dropWhile_id)
  have "list_all isdigit ds" unfolding ds by (simp add: list_all_iff) (meson set_takeWhileD)
  then show "group_at s 0 ds" using ne by (simp add: group_at_def s cs)
qed

lemma group_at_Suc: "group_at (c # cs) (Suc i) ds = group_at cs i ds"
  by (simp add: group_at_def)

lemma group_at_unique: "group_at s i ds \<Longrightarrow> group_at s i ds' \<Longrightarrow> ds = ds'"
proof (induction i arbitrary: s)
  case 0
  then show ?case by (simp add: group_at_0)
next
  case (Suc i)
  show ?case
  proof (cases s)
    case Nil
    with Suc.prems show ?thesis by (simp add: group_at_def)
  next
    case (Cons c cs)
    with Suc.prems have "group_at cs i ds" "group_at cs i ds'" by (simp_all add: group_at_Suc)
    then show ?thesis by (rule Suc.IH)
  qed
qed

lemma search_Some:
  "ID_BRACKET_RE_search s = Some ds \<longleftrightarrow>
     (\<exists>i. group_at s i ds \<and> (\<forall>j<i. \<forall>ds'. \<not> group_at s j ds'))"
proof (induction s)
  case Nil
  show ?case by (simp add: group_at_def)
next
  case (Cons c cs)
  show ?case
  proof (cases "match_here (c # cs)")
    case (Some g)
    then have g0: "group_at (c # cs) 0 g" by (simp add: group_at_0)
    have "(\<exists>i. group_at (c # cs) i ds \<and> (\<forall>j<i. \<forall>ds'. \<not> group_at (c # cs) j ds')) \<longleftrightarrow> g = ds"
    proof
      assume "\<exists>i. group_at (c # cs) i ds \<and> (\<forall>j<i. \<forall>ds'. \<not> group_at (c # cs) j ds')"
      then obtain i where i: "group_at (c # cs) i ds" "\<forall>j<i. \<forall>ds'. \<not> group_at (c # cs) j ds'" by blast
      have "i = 0" using i(2) g0 by (cases i) auto
      with i(1) g0 show "g = ds" using group_at_unique by blast
    next
      assume "g = ds"
      with g0 have "group_at (c # cs) 0 ds \<and> (\<forall>j<0. \<forall>ds'. \<not> group_at (c # cs) j ds')" by simp
      then show "\<exists>i. group_at (c # cs) i ds \<and> (\<forall>j<i. \<forall>ds'. \<not> group_at (c # cs) j ds')" by blast
    qed
    with Some show ?thesis by simp
  next
    case None
    then have n0: "\<And>ds'. \<not> group_at (c # cs) 0 ds'" by (simp add: group_at_0)
    have "(\<exists>i. group_at (c # cs) i ds \<and> (\<forall>j<i. \<forall>ds'. \<not> group_at (c # cs) j ds'))
          \<longleftrightarrow> (\<exists>i. group_at cs i ds \<and> (\<forall>j<i. \<forall>ds'. \<not> group_at cs j ds'))"
    proof
      assume "\<exists>i. group_at (c # cs) i ds \<and> (\<forall>j<i. \<forall>ds'. \<not> group_at (c # cs) j ds')"
      then obtain i where i: "group_at (c # cs) i ds" "\<forall>j<i. \<forall>ds'. \<not> group_at (c # cs) j ds'" by blast
      from i(1) n0 obtain k where k: "i = Suc k" by (cases i) auto
      have "group_at cs k ds" using i(1) k by (simp add: group_at_Suc)
      moreover have "\<forall>j<k. \<forall>ds'. \<not> group_at cs j ds'"
      proof (intro allI impI)
        fix j ds' assume "j < k"
        then have "Suc j < i" using k by simp
        with i(2) have "\<not> group_at (c # cs) (Suc j) ds'" by blast
        then show "\<not> group_at cs j ds'" by (simp add: group_at_Suc)
      qed
      ultimately show "\<exists>i. group_at cs i ds \<and> (\<forall>j<i. \<forall>ds'. \<not> group_at cs j ds')" by blast
    next
      assume "\<exists>i. group_at cs i ds \<and> (\<forall>j<i. \<forall>ds'. \<not> group_at cs j ds')"
      then obtain k where k: "group_at cs k ds" "\<forall>j<k. \<forall>ds'. \<not> group_at cs j ds'" by blast
      have "group_at (c # cs) (Suc k) ds" using k(1) by (simp add: group_at_Suc)
      moreover have "\<forall>j<Suc k. \<forall>ds'. \<not> group_at (c # cs) j ds'"
      proof (intro allI impI)
        fix j ds' assume j: "j < Suc k"
        show "\<not> group_at (c # cs) j ds'"
        proof (cases j)
          case 0
          then show ?thesis using n0 by simp
        next
          case (Suc m)
          then show ?thesis using j k(2) by (simp add: group_at_Suc)
        qed
      qed
      ultimately show "\<exists>i. group_at (c # cs) i ds \<and> (\<forall>j<i. \<forall>ds'. \<not> group_at (c # cs) j ds')" by blast
    qed
    with None Cons.IH show ?thesis by simp
  qed
qed

lemma search_None: "ID_BRACKET_RE_search s = None \<longleftrightarrow> (\<forall>i ds. \<not> group_at s i ds)"
proof
  assume n: "ID_BRACKET_RE_search s = None"
  show "\<forall>i ds. \<not> group_at s i ds"
  proof (intro allI notI)
    fix i ds assume g: "group_at s i ds"
    define P where "P = (\<lambda>j. \<exists>ds'. group_at s j ds')"
    have "P i" using g by (auto simp: P_def)
    then have l: "P (LEAST j. P j)" by (rule LeastI)
    have m: "\<And>j. j < (LEAST j. P j) \<Longrightarrow> \<not> P j" by (rule not_less_Least)
    from l obtain ds0 where "group_at s (LEAST j. P j) ds0" by (auto simp: P_def)
    moreover have "\<forall>j<(LEAST j. P j). \<forall>ds'. \<not> group_at s j ds'" using m by (auto simp: P_def)
    ultimately have "ID_BRACKET_RE_search s = Some ds0" unfolding search_Some by blast
    with n show False by simp
  qed
next
  assume a: "\<forall>i ds. \<not> group_at s i ds"
  show "ID_BRACKET_RE_search s = None"
  proof (cases "ID_BRACKET_RE_search s")
    case (Some ds)
    then show ?thesis using a unfolding search_Some by blast
  qed simp
qed

text \<open>
  Claim C6: \<open>parse_id_from_file1\<close> gives absent for a missing field; otherwise it gives
  the digits of the leftmost bracketed group of the text of the field, and absent
  exactly when the text has no bracketed group. Later groups are ignored:
  \<open>parse_id_from_file1("X [1] Y [2]")\<close> is \<open>"1"\<close>.
\<close>

theorem parse_id_from_file1_first_group:
  "(is_missing v \<longrightarrow> parse_id_from_file1 v = Inr None)
   \<and> (\<not> is_missing v \<and> py_str v = Inr s \<longrightarrow>
        (parse_id_from_file1 v = Inr (Some ds) \<longleftrightarrow>
           (\<exists>i. group_at s i ds \<and> (\<forall>j<i. \<forall>ds'. \<not> group_at s j ds')))
        \<and> (parse_id_from_file1 v = Inr None \<longleftrightarrow> (\<forall>i ds'. \<not> group_at s i ds')))
   \<and> (parse_id_from_file1 v = Inl e \<longleftrightarrow> py_str v = Inl e)
   \<and> parse_id_from_file1 (PyStr ''X [1] Y [2]'') = Inr (Some ''1'')"
proof (intro conjI impI)
  assume "is_missing v"
  then show "parse_id_from_file1 v = Inr None" by (auto simp: is_missing_def parse_id_from_file1_def)
next
  assume "\<not> is_missing v \<and> py_str v = Inr s"
  then have e: "parse_id_from_file1 v = Inr (ID_BRACKET_RE_search s)"
    by (simp add: is_missing_def parse_id_from_file1_def)
  show "parse_id_from_file1 v = Inr (Some ds) \<longleftrightarrow>
           (\<exists>i. group_at s i ds \<and> (\<forall>j<i. \<forall>ds'. \<not> group_at s j ds'))"
    unfolding e sum.inject by (rule search_Some)
  show "parse_id_from_file1 v = Inr None \<longleftrightarrow> (\<forall>i ds'. \<not> group_at s i ds')"
    unfolding e sum.inject by (rule search_None)
next
  show "parse_id_from_file1 v = Inl e \<longleftrightarrow> py_str v = Inl e"
    by (auto simp: parse_id_from_file1_def split: sum.splits)
next
  show "parse_id_from_file1 (PyStr ''X [1] Y [2]'') = Inr (Some ''1'')" by (simp add: ev)
qed

theorem parse_id_from_file1_first_group_witness:
  "\<not> is_missing (PyStr ''Acme [x] [48] [21]'')
   \<and> py_str (PyStr ''Acme [x] [48] [21]'') = Inr ''Acme [x] [48] [21]''
   \<and> group_at ''Acme [x] [48] [21]'' 9 ''48''
   \<and> parse_id_from_file1 (PyStr ''Acme [x] [48] [21]'') = Inr (Some ''48'')
   \<and> is_missing PyNaN \<and> parse_id_from_file1 PyNaN = Inr None
   \<and> \<not> is_missing (PyInt 5) \<and> py_str (PyInt 5) = Inr ''5'' \<and> parse_id_from_file1 (PyInt 5) = Inr None"
proof -
  have h1: "\<not> is_missing (PyStr ''Acme [x] [48] [21]'')" "is_missing PyNaN" "\<not> is_missing (PyInt 5)"
    by (simp_all add: is_missing_def)
  have h2: "group_at ''Acme [x] [48] [21]'' 9 ''48''"
    by (simp add: group_at_def isdigit_def)
  have h3: "parse_id_from_file1 (PyStr ''Acme [x] [48] [21]'') = Inr (Some ''48'')" by (simp add: ev)
  have h4: "parse_id_from_file1 (PyInt 5) = Inr None"
    by (simp add: ev str_int_def str_nat.simps digit_char_def)
  have h5: "py_str (PyInt 5) = Inr ''5''"
    by (simp add: ev str_int_def str_nat.simps digit_char_def)
  have h6: "py_str (PyStr ''Acme [x] [48] [21]'') = Inr ''Acme [x] [48] [21]''" by simp
  have "\<forall>i ds'. \<not> group_at ''5'' i ds'"
    using h1(3) h4 h5 parse_id_from_file1_first_group [of "PyInt 5" "''5''"] by blast
  moreover have "parse_id_from_file1 PyNaN = Inr None"
    using h1(2) parse_id_from_file1_first_group [of PyNaN] by blast
  moreover have "\<exists>i. group_at ''Acme [x] [48] [21]'' i ''48'' \<and> (\<forall>j<i. \<forall>ds'. \<not> group_at ''Acme [x] [48] [21]'' j ds')"
    using h1(1) h3 h6 parse_id_from_file1_first_group [of "PyStr ''Acme [x] [48] [21]''" "''Acme [x] [48] [21]''" "''48''"]
    by blast
  ultimately show ?thesis
    using h1 h2 h3 h4 h5 h6 by blast
qed

lemma py_split_head: "\<exists>ws. py_split sep s = takeWhile (\<lambda>c. c \<noteq> sep) s # ws"
  by (induction s) auto

lemma item0_py_split: "item0 (py_split sep s) = Inr (takeWhile (\<lambda>c. c \<noteq> sep) s)"
  using py_split_head [of sep s] by (auto simp: item0_def)

lemma takeWhile_no_sep: "sep \<notin> set s \<Longrightarrow> takeWhile (\<lambda>c. c \<noteq> sep) s = s"
  by (induction s) auto

lemma dropWhile_takeWhile_commute:
  "(\<And>c. sp c \<Longrightarrow> P c) \<Longrightarrow> dropWhile sp (takeWhile P s) = takeWhile P (dropWhile sp s)"
  by (induction s) auto

lemma rstrip_Cons:
  "rev (dropWhile sp (rev (c # cs))) =
     (if \<forall>x\<in>set cs. sp x then (if sp c then [] else [c]) else c # rev (dropWhile sp (rev cs)))"
  by (simp add: dropWhile_append)

lemma rstrip_Nil_iff: "rev (dropWhile sp (rev xs)) = [] \<longleftrightarrow> (\<forall>x\<in>set xs. sp x)"
  by (simp add: dropWhile_eq_Nil_conv)

lemma takeWhile_all: "(\<forall>x\<in>set xs. P x) \<Longrightarrow> takeWhile P xs = xs"
  by (induction xs) auto

lemma rstrip_takeWhile:
  assumes "\<And>c. sp c \<Longrightarrow> P c"
  shows "rev (dropWhile sp (rev (takeWhile P (rev (dropWhile sp (rev b)))))) =
         rev (dropWhile sp (rev (takeWhile P b)))"
proof (induction b)
  case Nil
  show ?case by simp
next
  case (Cons c cs)
  show ?case
  proof (cases "\<forall>x\<in>set cs. sp x")
    case True
    then have "\<forall>x\<in>set cs. P x" using assms by blast
    then have tw: "takeWhile P cs = cs" by (rule takeWhile_all)
    have r: "rev (dropWhile sp (rev (c # cs))) = (if sp c then [] else [c])"
      unfolding rstrip_Cons [of sp c cs] using True by simp
    have r2: "rev (dropWhile sp (rev (takeWhile P (c # cs)))) = (if P c then (if sp c then [] else [c]) else [])"
    proof (cases "P c")
      case True
      then have "takeWhile P (c # cs) = c # cs" by (simp add: tw)
      then show ?thesis using True r by (simp only: if_True)
    next
      case False
      then show ?thesis by simp
    qed
    show ?thesis unfolding r r2 using assms by auto
  next
    case False
    have r: "rev (dropWhile sp (rev (c # cs))) = c # rev (dropWhile sp (rev cs))"
      unfolding rstrip_Cons [of sp c cs] using False by simp
    show ?thesis
    proof (cases "P c")
      case np: False
      then show ?thesis unfolding r by simp
    next
      case pc: True
      let ?X1 = "takeWhile P (rev (dropWhile sp (rev cs)))"
      let ?X2 = "takeWhile P cs"
      have ih: "rev (dropWhile sp (rev ?X1)) = rev (dropWhile sp (rev ?X2))" by (rule Cons.IH)
      then have "(\<forall>x\<in>set ?X1. sp x) \<longleftrightarrow> (\<forall>x\<in>set ?X2. sp x)"
        using rstrip_Nil_iff [of sp ?X1] rstrip_Nil_iff [of sp ?X2] by simp
      then have "rev (dropWhile sp (rev (c # ?X1))) = rev (dropWhile sp (rev (c # ?X2)))"
        unfolding rstrip_Cons [of sp c ?X1] rstrip_Cons [of sp c ?X2] using ih by simp
      then show ?thesis unfolding r using pc by simp
    qed
  qed
qed

lemma dropWhile_strip: "dropWhile isspace (strip s) = strip s"
proof (cases "strip s = []")
  case False
  then have "\<not> isspace (hd (strip s))" using strip_ends by blast
  with False show ?thesis by (cases "strip s") simp_all
qed simp

lemma strip_takeWhile_strip:
  assumes "\<And>c. isspace c \<Longrightarrow> P c"
  shows "strip (takeWhile P (strip s)) = strip (takeWhile P s)"
proof -
  let ?b = "dropWhile isspace s"
  have "strip (takeWhile P (strip s)) = rev (dropWhile isspace (rev (takeWhile P (dropWhile isspace (strip s)))))"
    by (simp add: strip_def [of "takeWhile P (strip s)"] dropWhile_takeWhile_commute [of isspace P, OF assms])
  also have "\<dots> = rev (dropWhile isspace (rev (takeWhile P (rev (dropWhile isspace (rev ?b))))))"
    by (simp add: dropWhile_strip) (simp add: strip_def)
  also have "\<dots> = rev (dropWhile isspace (rev (takeWhile P ?b)))"
    by (rule rstrip_takeWhile [of isspace P, OF assms])
  also have "\<dots> = strip (takeWhile P s)"
    by (simp add: strip_def [of "takeWhile P s"] dropWhile_takeWhile_commute [of isspace P, OF assms])
  finally show ?thesis .
qed

lemma comma_after_space: "isspace c \<Longrightarrow> c \<noteq> CHR '',''"
  using comma_facts(2) by auto

text \<open>
  Claim C7: \<open>parse_id_from_file2\<close> gives absent for a missing or blank field; otherwise
  it gives the stripped text before the first comma (of the stripped text, which is also
  that of the text itself), and the whole stripped text when there is no comma.
\<close>

theorem parse_id_from_file2_prefix:
  "(is_missing v \<longrightarrow> parse_id_from_file2 v = Inr None)
   \<and> (py_str v = Inr s \<and> list_all isspace s \<longrightarrow> parse_id_from_file2 v = Inr None)
   \<and> (\<not> is_missing v \<and> py_str v = Inr s \<and> \<not> list_all isspace s \<longrightarrow>
        parse_id_from_file2 v = Inr (Some (strip (takeWhile (\<lambda>c. c \<noteq> CHR '','') (strip s))))
        \<and> parse_id_from_file2 v = Inr (Some (strip (takeWhile (\<lambda>c. c \<noteq> CHR '','') s))))
   \<and> (\<not> is_missing v \<and> py_str v = Inr s \<and> \<not> list_all isspace s \<and> CHR '','' \<notin> set s \<longrightarrow>
        parse_id_from_file2 v = Inr (Some (strip s)))
   \<and> (parse_id_from_file2 v = Inl e \<longleftrightarrow> py_str v = Inl e)
   \<and> parse_id_from_file2 (PyStr ''4821,000'') = Inr (Some ''4821'')
   \<and> parse_id_from_file2 (PyStr ''4821'') = Inr (Some ''4821'')"
proof (intro conjI impI)
  assume "is_missing v"
  then show "parse_id_from_file2 v = Inr None"
    by (auto simp: parse_id_from_file2_def is_missing_def)
next
  assume "py_str v = Inr s \<and> list_all isspace s"
  then show "parse_id_from_file2 v = Inr None"
    by (auto simp: parse_id_from_file2_def strip_empty)
next
  assume h: "\<not> is_missing v \<and> py_str v = Inr s \<and> \<not> list_all isspace s"
  then have ne: "strip s \<noteq> []" by (simp add: strip_empty)
  show a: "parse_id_from_file2 v = Inr (Some (strip (takeWhile (\<lambda>c. c \<noteq> CHR '','') (strip s))))"
    using h ne by (simp add: parse_id_from_file2_def is_missing_def item0_py_split)
  show "parse_id_from_file2 v = Inr (Some (strip (takeWhile (\<lambda>c. c \<noteq> CHR '','') s)))"
    unfolding a using strip_takeWhile_strip [of "\<lambda>c. c \<noteq> CHR '',''" s, OF comma_after_space]
    by simp
next
  assume h: "\<not> is_missing v \<and> py_str v = Inr s \<and> \<not> list_all isspace s \<and> CHR '','' \<notin> set s"
  then have ne: "strip s \<noteq> []" by (simp add: strip_empty)
  have "CHR '','' \<notin> set (strip s)" using h strip_subset by blast
  then have "takeWhile (\<lambda>c. c \<noteq> CHR '','') (strip s) = strip s"
    by (rule takeWhile_no_sep)
  then have "strip (takeWhile (\<lambda>c. c \<noteq> CHR '','') (strip s)) = strip s"
    by (simp only: strip_idem)
  then show "parse_id_from_file2 v = Inr (Some (strip s))"
    using h ne by (simp add: parse_id_from_file2_def is_missing_def item0_py_split)
next
  show "parse_id_from_file2 v = Inl e \<longleftrightarrow> py_str v = Inl e"
    by (auto simp: parse_id_from_file2_def item0_py_split Let_def split: sum.splits)
next
  show "parse_id_from_file2 (PyStr ''4821,000'') = Inr (Some ''4821'')" by (simp add: ev)
next
  show "parse_id_from_file2 (PyStr ''4821'') = Inr (Some ''4821'')" by (simp add: ev)
qed

theorem parse_id_from_file2_prefix_witness:
  "py_str (PyStr ''  '') = Inr ''  '' \<and> list_all isspace ''  '' \<and> parse_id_from_file2 (PyStr ''  '') = Inr None
   \<and> \<not> is_missing (PyStr '' 48 21 ,000'') \<and> py_str (PyStr '' 48 21 ,000'') = Inr '' 48 21 ,000''
   \<and> \<not> list_all isspace '' 48 21 ,000''
   \<and> parse_id_from_file2 (PyStr '' 48 21 ,000'') = Inr (Some ''48 21'')
   \<and> \<not> is_missing (PyInt 4821) \<and> py_str (PyInt 4821) = Inr ''4821''
   \<and> \<not> list_all isspace ''4821'' \<and> CHR '','' \<notin> set ''4821''
   \<and> parse_id_from_file2 (PyInt 4821) = Inr (Some ''4821'')
   \<and> is_missing PyNone \<and> parse_id_from_file2 PyNone = Inr None"
proof -
  have s: "py_str (PyInt 4821) = Inr ''4821''"
    by (simp add: ev str_int_def str_nat.simps digit_char_def)
  have s1: "py_str (PyStr ''  '') = Inr ''  ''" and s2: "py_str (PyStr '' 48 21 ,000'') = Inr '' 48 21 ,000''"
    by simp_all
  have h1: "list_all isspace ''  ''" by (simp add: isspace_def)
  have h2: "\<not> is_missing (PyStr '' 48 21 ,000'')" "\<not> is_missing (PyInt 4821)" "is_missing PyNone"
    by (simp_all add: is_missing_def)
  have h3: "\<not> list_all isspace '' 48 21 ,000''" by (simp add: isspace_def)
  have h4: "\<not> list_all isspace ''4821''" "CHR '','' \<notin> set ''4821''"
    by (simp_all add: isspace_def)
  have e1: "strip (takeWhile (\<lambda>c. c \<noteq> CHR '','') '' 48 21 ,000'') = ''48 21''"
    by (simp add: strip_def isspace_def)
  have e2: "strip ''4821'' = ''4821''" by (simp add: strip_def isspace_def)
  have a: "parse_id_from_file2 (PyStr ''  '') = Inr None"
    using s1 h1 parse_id_from_file2_prefix [of "PyStr ''  ''" "''  ''"] by blast
  have b: "parse_id_from_file2 (PyStr '' 48 21 ,000'') = Inr (Some ''48 21'')"
    using s2 h2(1) h3 parse_id_from_file2_prefix [of "PyStr '' 48 21 ,000''" "'' 48 21 ,000''"]
    unfolding e1 by blast
  have c: "parse_id_from_file2 (PyInt 4821) = Inr (Some ''4821'')"
    using s h2(2) h4 parse_id_from_file2_prefix [of "PyInt 4821" "''4821''"]
    unfolding e2 by blast
  have d: "parse_id_from_file2 PyNone = Inr None"
    using h2(3) parse_id_from_file2_prefix [of PyNone] by blast
  show ?thesis
    by (intro conjI) (rule s s1 s2 h1 h2 h3 h4 a b c d)+
qed

section \<open>Decimal arithmetic within the precision\<close>

lemma ndigits_pos: "0 < ndigits c"
  by (subst ndigits_rec) simp

lemma ndigits_le: "0 < k \<Longrightarrow> c < 10 ^ k \<Longrightarrow> ndigits c \<le> k"
proof (induction k arbitrary: c)
  case 0
  then show ?case by simp
next
  case (Suc k)
  show ?case
  proof (cases "c < 10")
    case True
    then show ?thesis by (subst ndigits_rec) simp
  next
    case False
    with Suc.prems have k: "0 < k" by (cases k) auto
    from Suc.prems have "c div 10 < 10 ^ k" by (simp add: less_mult_imp_div_less mult.commute)
    with k have "ndigits (c div 10) \<le> k" by (rule Suc.IH)
    with False show ?thesis by (subst ndigits_rec) simp
  qed
qed

lemma ndigits_lower: "0 < c \<Longrightarrow> 10 ^ (ndigits c - 1) \<le> c"
proof (induction c rule: less_induct)
  case (less c)
  show ?case
  proof (cases "c < 10")
    case True
    with less.prems show ?thesis by (subst ndigits_rec) simp
  next
    case False
    then have d: "0 < c div 10" "c div 10 < c" by simp_all
    have ih: "10 ^ (ndigits (c div 10) - 1) \<le> c div 10" using d by (intro less.IH)
    have "(10::nat) ^ ndigits (c div 10) = 10 * 10 ^ (ndigits (c div 10) - 1)"
      using ndigits_pos [of "c div 10"] by (cases "ndigits (c div 10)") simp_all
    also have "\<dots> \<le> 10 * (c div 10)" using ih by simp
    also have "\<dots> \<le> c" by simp
    finally show ?thesis using False by (subst ndigits_rec) simp
  qed
qed

lemma dec_fix_id:
  assumes "c < 10 ^ prec" "Etiny \<le> e" "e \<le> Etop"
  shows "dec_fix s c e = Inr (Finite s c e)"
proof (cases "c = 0")
  case True
  with assms show ?thesis by (simp add: dec_fix_def Etiny_def Etop_def Emax_def Emin_def prec_def)
next
  case False
  have "ndigits c \<le> prec" using assms(1) by (intro ndigits_le) (simp_all add: prec_def)
  then have "int (ndigits c) + e - int prec \<le> e" by simp
  with False assms show ?thesis by (simp add: dec_fix_def Let_def)
qed

lemma pow10_less_exp: "(10::nat) ^ a < 10 ^ b \<Longrightarrow> a < b"
  by simp

lemma normalize_aux_exact:
  assumes "0 < tc" "oe \<le> te" "tc * 10 ^ nat (te - oe) < 10 ^ prec"
  shows "dec_normalize_aux tc te oc oe = (tc * 10 ^ nat (te - oe), oc, oe)"
proof -
  have "(10::nat) ^ (ndigits tc - 1 + nat (te - oe)) = 10 ^ (ndigits tc - 1) * 10 ^ nat (te - oe)"
    by (simp add: power_add)
  also have "\<dots> \<le> tc * 10 ^ nat (te - oe)" using ndigits_lower [OF assms(1)] by simp
  also have "\<dots> < 10 ^ prec" by (rule assms(3))
  finally have "ndigits tc - 1 + nat (te - oe) < prec" by (rule pow10_less_exp)
  then have "int (ndigits tc) + (te - oe) < int prec + 1"
    using ndigits_pos [of tc] assms(2) by linarith
  moreover have "1 \<le> int (ndigits oc)" using ndigits_pos [of oc] by linarith
  ultimately have "\<not> (int (ndigits oc) + oe - 1 < te + min (- 1) (int (ndigits tc) - int prec - 2))"
    by linarith
  then show ?thesis by (simp add: dec_normalize_aux_def Let_def)
qed

lemma normalize_exact:
  assumes "0 < c1" "0 < c2"
    and "c1 * 10 ^ nat (e1 - min e1 e2) + c2 * 10 ^ nat (e2 - min e1 e2) < 10 ^ prec"
  shows "dec_normalize c1 e1 c2 e2 =
           (c1 * 10 ^ nat (e1 - min e1 e2), c2 * 10 ^ nat (e2 - min e1 e2), min e1 e2)"
proof (cases "e1 < e2")
  case True
  then have m: "min e1 e2 = e1" by simp
  have "c2 * 10 ^ nat (e2 - e1) < 10 ^ prec" using assms(3) unfolding m by simp
  then have "dec_normalize_aux c2 e2 c1 e1 = (c2 * 10 ^ nat (e2 - e1), c1, e1)"
    using assms(2) True by (intro normalize_aux_exact) simp_all
  with True show ?thesis by (simp add: dec_normalize_def m)
next
  case False
  then have m: "min e1 e2 = e2" by simp
  have "c1 * 10 ^ nat (e1 - e2) < 10 ^ prec" using assms(3) unfolding m by simp
  then have "dec_normalize_aux c1 e1 c2 e2 = (c1 * 10 ^ nat (e1 - e2), c2, e2)"
    using assms(1) False by (intro normalize_aux_exact) simp_all
  with False show ?thesis by (simp add: dec_normalize_def m)
qed

lemma scale_units:
  assumes "- int q \<le> m" "m \<le> e"
  shows "(c::nat) * 10 ^ nat (e - m) * 10 ^ nat (m + int q) = c * 10 ^ nat (e + int q)"
proof -
  have "nat (e - m) + nat (m + int q) = nat (e + int q)" using assms by linarith
  then show ?thesis by (simp add: power_add [symmetric] mult.assoc)
qed


lemma add_finite_exact:
  assumes q: "int q \<le> - Etiny"
    and e1: "- int q \<le> e1" "e1 \<le> Etop" and e2: "- int q \<le> e2" "e2 \<le> Etop"
    and b: "c1 * 10 ^ nat (e1 + int q) + c2 * 10 ^ nat (e2 + int q) < (10::nat) ^ prec"
  shows "\<exists>s c. add_finite s1 c1 e1 s2 c2 e2 = Inr (Finite s c (min e1 e2)) \<and>
           sg s * int (c * 10 ^ nat (min e1 e2 + int q)) =
           sg s1 * int (c1 * 10 ^ nat (e1 + int q)) + sg s2 * int (c2 * 10 ^ nat (e2 + int q))"
proof -
  define m where "m = min e1 e2"
  define P where "P = (10::nat) ^ nat (m + int q)"
  define A1 where "A1 = c1 * 10 ^ nat (e1 - m)"
  define A2 where "A2 = c2 * 10 ^ nat (e2 - m)"
  define U1 where "U1 = c1 * 10 ^ nat (e1 + int q)"
  define U2 where "U2 = c2 * 10 ^ nat (e2 + int q)"
  have mq: "- int q \<le> m" "m \<le> e1" "m \<le> e2" "Etiny \<le> m" "m \<le> Etop"
    using q e1 e2 by (simp_all add: m_def)
  have P: "1 \<le> P" by (simp add: P_def)
  have u1: "A1 * P = U1" unfolding A1_def P_def U1_def using mq by (intro scale_units)
  have u2: "A2 * P = U2" unfolding A2_def P_def U2_def using mq by (intro scale_units)
  have bU: "U1 + U2 < 10 ^ prec" using b by (simp add: U1_def U2_def)
  have "A1 + A2 \<le> (A1 + A2) * P" using P by simp
  also have "\<dots> = U1 + U2" using u1 u2 by (simp add: algebra_simps)
  finally have bA: "A1 + A2 < 10 ^ prec" using bU by simp
  have fixid: "\<And>s c. c \<le> A1 + A2 \<Longrightarrow> dec_fix s c m = Inr (Finite s c m)"
    using bA mq by (intro dec_fix_id) simp_all
  have U1i: "int U1 = int A1 * int P" using u1 by (metis of_nat_mult)
  have U2i: "int U2 = int A2 * int P" using u2 by (metis of_nat_mult)
  have main: "\<exists>s c. add_finite s1 c1 e1 s2 c2 e2 = Inr (Finite s c m) \<and>
        sg s * (int c * int P) = sg s1 * (int A1 * int P) + sg s2 * (int A2 * int P)"
  proof (cases "c1 = 0 \<and> c2 = 0")
    case True
    then have "add_finite s1 c1 e1 s2 c2 e2 = Inr (Finite (s1 \<and> s2) 0 m)"
      using fixid [of 0] by (simp add: add_finite_def m_def)
    moreover have "A1 = 0" "A2 = 0" using True by (simp_all add: A1_def A2_def)
    ultimately show ?thesis
      by (intro exI [of _ "s1 \<and> s2"] exI [of _ 0]) simp
  next
    case nz: False
    show ?thesis
    proof (cases "c1 = 0")
      case True
      with nz have c2: "0 < c2" by simp
      have "10 ^ nat (e2 + int q) \<le> U2" using c2 by (simp add: U2_def)
      with bU have "(10::nat) ^ nat (e2 + int q) < 10 ^ prec" by linarith
      then have "nat (e2 + int q) < prec" by (rule pow10_less_exp)
      then have "e2 - int prec - 1 \<le> m" using mq by linarith
      then have "max m (e2 - int prec - 1) = m" by simp
      then have "add_finite s1 c1 e1 s2 c2 e2 = dec_fix s2 A2 m"
        using True c2 by (simp add: add_finite_def Let_def m_def A2_def)
      also have "\<dots> = Inr (Finite s2 A2 m)" by (intro fixid) simp
      finally show ?thesis using True
        by (intro exI [of _ s2] exI [of _ A2]) (simp add: A1_def)
    next
      case c1: False
      show ?thesis
      proof (cases "c2 = 0")
        case True
        have "10 ^ nat (e1 + int q) \<le> U1" using c1 by (simp add: U1_def)
        with bU have "(10::nat) ^ nat (e1 + int q) < 10 ^ prec" by linarith
        then have "nat (e1 + int q) < prec" by (rule pow10_less_exp)
        then have "e1 - int prec - 1 \<le> m" using mq by linarith
        then have "max m (e1 - int prec - 1) = m" by simp
        then have "add_finite s1 c1 e1 s2 c2 e2 = dec_fix s1 A1 m"
          using True c1 by (simp add: add_finite_def Let_def m_def A1_def)
        also have "\<dots> = Inr (Finite s1 A1 m)" by (intro fixid) simp
        finally show ?thesis using True
          by (intro exI [of _ s1] exI [of _ A1]) (simp add: A2_def)
      next
        case c2: False
        have n: "dec_normalize c1 e1 c2 e2 = (A1, A2, m)"
          unfolding A1_def A2_def m_def using c1 c2 bA
          by (intro normalize_exact) (simp_all add: A1_def A2_def m_def)
        show ?thesis
        proof (cases "s1 = s2")
          case True
          then have "add_finite s1 c1 e1 s2 c2 e2 = dec_fix s1 (A1 + A2) m"
            using c1 c2 n by (simp add: add_finite_def Let_def)
          also have "\<dots> = Inr (Finite s1 (A1 + A2) m)" by (intro fixid) simp
          finally show ?thesis using True
            by (intro exI [of _ s1] exI [of _ "A1 + A2"]) (simp add: algebra_simps)
        next
          case ds: False
          then have sgs: "sg s2 = - sg s1" by (cases s1; cases s2) (simp_all add: sg_def)
          consider (eq) "A1 = A2" | (lt) "A1 < A2" | (gt) "A2 < A1" by linarith
          then show ?thesis
          proof cases
            case eq
            then have "add_finite s1 c1 e1 s2 c2 e2 = dec_fix False 0 m"
              using c1 c2 n ds by (simp add: add_finite_def Let_def m_def)
            also have "\<dots> = Inr (Finite False 0 m)" by (intro fixid) simp
            finally show ?thesis using eq sgs
              by (intro exI [of _ False] exI [of _ 0]) simp
          next
            case lt
            then have "add_finite s1 c1 e1 s2 c2 e2 = dec_fix s2 (A2 - A1) m"
              using c1 c2 n ds by (simp add: add_finite_def Let_def)
            also have "\<dots> = Inr (Finite s2 (A2 - A1) m)" by (intro fixid) simp
            finally show ?thesis using lt sgs
              by (intro exI [of _ s2] exI [of _ "A2 - A1"]) (simp add: algebra_simps of_nat_diff)
          next
            case gt
            then have "add_finite s1 c1 e1 s2 c2 e2 = dec_fix s1 (A1 - A2) m"
              using c1 c2 n ds by (simp add: add_finite_def Let_def)
            also have "\<dots> = Inr (Finite s1 (A1 - A2) m)" by (intro fixid) simp
            finally show ?thesis using gt sgs
              by (intro exI [of _ s1] exI [of _ "A1 - A2"]) (simp add: algebra_simps of_nat_diff)
          qed
        qed
      qed
    qed
  qed
  show ?thesis
    using main
    unfolding U1_def [symmetric] U2_def [symmetric] m_def [symmetric] U1i U2i
    by (simp add: P_def)
qed

lemma tame_Finite: "tame q d \<Longrightarrow> \<exists>s c e. d = Finite s c e \<and> - int q \<le> e \<and> e \<le> Etop"
  by (cases d) (simp_all add: tame_def)

lemma tame_simp [simp]: "tame q (Finite s c e) \<longleftrightarrow> - int q \<le> e \<and> e \<le> Etop"
  by (simp add: tame_def)

lemma units_simp [simp]: "units q (Finite s c e) = sg s * int (c * 10 ^ nat (e + int q))"
  by (simp add: units_def)

lemma abs_sg [simp]: "\<bar>sg s\<bar> = 1"
  by (simp add: sg_def)

lemma abs_units: "\<bar>units q (Finite s c e)\<bar> = int (c * 10 ^ nat (e + int q))"
  by (simp add: abs_mult)

lemma dec_add_exact:
  assumes "int q \<le> - Etiny" "tame q x" "tame q y" "\<bar>units q x\<bar> + \<bar>units q y\<bar> < 10 ^ prec"
  shows "\<exists>z. dec_add x y = Inr z \<and> tame q z \<and> units q z = units q x + units q y"
proof -
  from assms(2) obtain s1 c1 e1 where x: "x = Finite s1 c1 e1" and e1: "- int q \<le> e1" "e1 \<le> Etop"
    using tame_Finite by blast
  from assms(3) obtain s2 c2 e2 where y: "y = Finite s2 c2 e2" and e2: "- int q \<le> e2" "e2 \<le> Etop"
    using tame_Finite by blast
  have "int (c1 * 10 ^ nat (e1 + int q) + c2 * 10 ^ nat (e2 + int q)) < int (10 ^ prec)"
    using assms(4) unfolding x y abs_units by simp
  then have b: "c1 * 10 ^ nat (e1 + int q) + c2 * 10 ^ nat (e2 + int q) < (10::nat) ^ prec"
    by (simp only: of_nat_less_iff)
  from add_finite_exact [OF assms(1) e1 e2 b, of s1 s2]
  obtain s c where r: "add_finite s1 c1 e1 s2 c2 e2 = Inr (Finite s c (min e1 e2))"
    and u: "sg s * int (c * 10 ^ nat (min e1 e2 + int q)) =
            sg s1 * int (c1 * 10 ^ nat (e1 + int q)) + sg s2 * int (c2 * 10 ^ nat (e2 + int q))"
    by blast
  have "dec_add x y = Inr (Finite s c (min e1 e2))" using r by (simp add: dec_add_def x y)
  moreover have "tame q (Finite s c (min e1 e2))" using e1 e2 by simp
  moreover have "units q (Finite s c (min e1 e2)) = units q x + units q y" using u by (simp add: x y)
  ultimately show ?thesis by blast
qed

lemma dec_sub_exact:
  assumes "int q \<le> - Etiny" "tame q x" "tame q y" "\<bar>units q x\<bar> + \<bar>units q y\<bar> < 10 ^ prec"
  shows "\<exists>z. dec_sub x y = Inr z \<and> tame q z \<and> units q z = units q x - units q y"
proof -
  from assms(2) obtain s1 c1 e1 where x: "x = Finite s1 c1 e1" using tame_Finite by blast
  from assms(3) obtain s2 c2 e2 where y: "y = Finite s2 c2 e2" using tame_Finite by blast
  have s: "dec_sub x y = dec_add x (copy_negate y)" by (simp add: dec_sub_def x y)
  have t: "tame q (copy_negate y)" using assms(3) by (simp add: y)
  have u: "units q (copy_negate y) = - units q y" by (simp add: y sg_def)
  have "\<bar>units q x\<bar> + \<bar>units q (copy_negate y)\<bar> < 10 ^ prec" using assms(4) by (simp add: u)
  from dec_add_exact [OF assms(1) assms(2) t this] show ?thesis unfolding s u by simp
qed

lemma fits_Cons: "fits q (d # ds) \<longleftrightarrow>
    int q \<le> - Etiny \<and> tame q d \<and> list_all (tame q) ds \<and> \<bar>units q d\<bar> + (\<Sum>v\<leftarrow>ds. \<bar>units q v\<bar>) < 10 ^ prec"
  by (auto simp: fits_def)

lemma sum_abs_nonneg: "0 \<le> (\<Sum>v\<leftarrow>ds. \<bar>units q v\<bar>)"
  by (induction ds) simp_all

lemma sum_decimal_exact:
  "fits q (acc # vs) \<Longrightarrow>
     \<exists>t. sum_decimal acc vs = Inr t \<and> tame q t \<and> units q t = units q acc + (\<Sum>v\<leftarrow>vs. units q v)"
proof (induction vs arbitrary: acc)
  case Nil
  then show ?case by (simp add: fits_Cons)
next
  case (Cons v vs)
  from Cons.prems have q: "int q \<le> - Etiny" and ta: "tame q acc" and tv: "tame q v"
    and tvs: "list_all (tame q) vs"
    and b: "\<bar>units q acc\<bar> + (\<bar>units q v\<bar> + (\<Sum>w\<leftarrow>vs. \<bar>units q w\<bar>)) < 10 ^ prec"
    by (simp_all add: fits_Cons)
  have "\<bar>units q acc\<bar> + \<bar>units q v\<bar> < 10 ^ prec" using b sum_abs_nonneg [of q vs] by linarith
  from dec_add_exact [OF q ta tv this]
  obtain z where z: "dec_add acc v = Inr z" "tame q z" "units q z = units q acc + units q v" by blast
  have "\<bar>units q z\<bar> \<le> \<bar>units q acc\<bar> + \<bar>units q v\<bar>" unfolding z(3) by (rule abs_triangle_ineq)
  then have "fits q (z # vs)" using q z(2) tvs b by (simp add: fits_Cons)
  from Cons.IH [OF this] obtain t where "sum_decimal z vs = Inr t" "tame q t"
    "units q t = units q z + (\<Sum>w\<leftarrow>vs. units q w)" by blast
  then show ?case using z by simp
qed

lemma pow10_powi: "- int q \<le> e \<Longrightarrow> (10::rat) powi e = 10 ^ nat (e + int q) / 10 ^ q"
proof -
  assume a: "- int q \<le> e"
  have "(10::rat) powi e = 10 powi ((e + int q) - int q)" by simp
  also have "\<dots> = 10 powi (e + int q) / 10 powi (int q)" by (rule power_int_diff) simp
  also have "\<dots> = 10 ^ nat (e + int q) / 10 ^ q" using a by (simp add: power_int_nonneg_exp)
  finally show ?thesis .
qed

lemma dec_val_units: "tame q d \<Longrightarrow> dec_val d = of_int (units q d) / 10 ^ q"
proof -
  assume "tame q d"
  then obtain s c e where d: "d = Finite s c e" and e: "- int q \<le> e" using tame_Finite by blast
  show ?thesis unfolding d by (simp add: pow10_powi [OF e] sg_def)
qed

lemma sum_dec_val_units:
  "list_all (tame q) ds \<Longrightarrow> (\<Sum>d\<leftarrow>ds. dec_val d) = of_int (\<Sum>d\<leftarrow>ds. units q d) / 10 ^ q"
  by (induction ds) (simp_all add: dec_val_units add_divide_distrib)

lemma fits_zero_Cons: "fits q ds \<Longrightarrow> fits q (zero # ds)"
  by (simp add: fits_def zero_def Etop_def Emax_def prec_def)

lemma sum_decimal_zero_exact:
  assumes "fits q ds"
  shows "\<exists>t. sum_decimal zero ds = Inr t \<and> tame q t \<and> units q t = (\<Sum>d\<leftarrow>ds. units q d)
             \<and> dec_val t = (\<Sum>d\<leftarrow>ds. dec_val d)"
proof -
  from sum_decimal_exact [OF fits_zero_Cons [OF assms]]
  obtain t where t: "sum_decimal zero ds = Inr t" "tame q t" "units q t = units q zero + (\<Sum>d\<leftarrow>ds. units q d)"
    by blast
  have u: "units q t = (\<Sum>d\<leftarrow>ds. units q d)" using t(3) by (simp add: zero_def)
  have "list_all (tame q) ds" using assms by (simp add: fits_def)
  then have "dec_val t = (\<Sum>d\<leftarrow>ds. dec_val d)"
    using t(2) u by (simp add: dec_val_units sum_dec_val_units)
  with t u show ?thesis by blast
qed

section \<open>The aggregators\<close>

lemma mapM_Inr_D: "mapM f xs = Inr ys \<Longrightarrow> list_all2 (\<lambda>x y. f x = Inr y) xs ys"
  by (induction xs arbitrary: ys) (auto split: sum.splits)

lemma mapM_Inr_I: "list_all2 (\<lambda>x y. f x = Inr y) xs ys \<Longrightarrow> mapM f xs = Inr ys"
  by (induction rule: list_all2_induct) simp_all

lemma mapM_Inr: "mapM f xs = Inr ys \<longleftrightarrow> list_all2 (\<lambda>x y. f x = Inr y) xs ys"
  using mapM_Inr_D mapM_Inr_I by blast

lemma mapM_pure: "(\<And>x. x \<in> set xs \<Longrightarrow> f x = Inr (g x)) \<Longrightarrow> mapM f xs = Inr (map g xs)"
  by (induction xs) simp_all

lemma mapM_total: "(\<And>x. x \<in> set xs \<Longrightarrow> \<exists>y. f x = Inr y) \<Longrightarrow> \<exists>ys. mapM f xs = Inr ys"
proof (induction xs)
  case Nil
  show ?case by simp
next
  case (Cons x xs)
  from Cons.prems obtain y where y: "f x = Inr y" by auto
  from Cons obtain ys where "mapM f xs = Inr ys" by auto
  with y show ?case by simp
qed

lemma mapM_if:
  "(\<And>x. x \<in> set xs \<Longrightarrow> f x = (if ok x then Inr (g x) else Inl E)) \<Longrightarrow>
     mapM f xs = (if list_all ok xs then Inr (map g xs) else Inl E)"
  by (induction xs) simp_all

lemma py_str_printable: "py_str v = (if printable v then Inr (text_of v) else Inl ValueError)"
proof (cases "py_str v")
  case (Inl e)
  then have "e = ValueError" by (simp add: py_str_error)
  with Inl show ?thesis by (simp add: printable_def)
next
  case (Inr s)
  then show ?thesis by (simp add: printable_def text_of_def)
qed

lemma parse_amount_printable:
  "parse_amount v = (if printable v then Inr (amount_of v) else Inl ValueError)"
proof (cases "parse_amount v")
  case (Inl e)
  then have "py_str v = Inl e" by (simp only: parse_amount_raises)
  with Inl show ?thesis using py_str_printable [of v] by (simp split: if_splits)
next
  case (Inr a)
  have "printable v"
  proof (rule ccontr)
    assume "\<not> printable v"
    then have "py_str v = Inl ValueError" using py_str_printable [of v] by simp
    then have "parse_amount v = Inl ValueError" by (simp only: parse_amount_raises)
    with Inr show False by simp
  qed
  with Inr show ?thesis by (simp add: amount_of_def)
qed

lemma parse_id_from_file1_raises: "parse_id_from_file1 v = Inl e \<longleftrightarrow> py_str v = Inl e"
  by (auto simp: parse_id_from_file1_def split: sum.splits)

lemma parse_id_from_file2_raises: "parse_id_from_file2 v = Inl e \<longleftrightarrow> py_str v = Inl e"
  by (auto simp: parse_id_from_file2_def item0_py_split Let_def split: sum.splits)

lemma parser_printable:
  assumes "\<And>e. f v = Inl e \<longleftrightarrow> py_str v = Inl e"
  shows "f v = (if printable v then Inr (case f v of Inr i \<Rightarrow> i | Inl e \<Rightarrow> None) else Inl ValueError)"
proof (cases "f v")
  case (Inl e)
  then have "py_str v = Inl e" by (simp only: assms)
  with Inl show ?thesis using py_str_printable [of v] by (simp split: if_splits)
next
  case (Inr a)
  have "printable v"
  proof (rule ccontr)
    assume "\<not> printable v"
    then have "py_str v = Inl ValueError" using py_str_printable [of v] by simp
    then have "f v = Inl ValueError" by (simp only: assms)
    with Inr show False by simp
  qed
  with Inr show ?thesis by simp
qed

lemma kept_rows_map:
  "kept_rows (map f df) (map g df) (map h df) =
     concat (map (\<lambda>r. case f r of None \<Rightarrow> [] | Some ci \<Rightarrow> [(ci, g r, h r)]) df)"
  by (induction df) (simp_all add: kept_rows_def)

lemma out_row_printable:
  "out_row (ci, raw, a) =
     (if printable raw then Inr (strip ci, a, Some (strip (text_of raw))) else Inl ValueError)"
  using py_str_printable [of raw] by (simp add: out_row_def split: if_splits)

lemma mapM_out_row_kept:
  "mapM out_row (concat (map (\<lambda>r. case fid r of None \<Rightarrow> [] | Some ci \<Rightarrow> [(ci, fraw r, fval r)]) df))
     = (if list_all (\<lambda>r. fid r = None \<or> printable (fraw r)) df
        then Inr (out_rows (\<lambda>r. map_option strip (fid r)) fval (\<lambda>r. strip (text_of (fraw r))) df)
        else Inl ValueError)"
proof (induction df)
  case Nil
  show ?case by (simp add: out_rows_def)
next
  case (Cons r df)
  show ?case
  proof (cases "fid r")
    case None
    with Cons show ?thesis by (simp add: out_rows_def)
  next
    case (Some ci)
    with Cons show ?thesis by (simp add: out_rows_def out_row_printable)
  qed
qed

lemma prepare_file1_out:
  "prepare_file1 df =
     (if list_all readable1 df then groupby_agg (out_rows row1_id row1_value row1_name df)
      else Inl ValueError)"
proof -
  define id1 where "id1 = (\<lambda>v. case parse_id_from_file1 v of Inr i \<Rightarrow> i | Inl e \<Rightarrow> None)"
  have p: "\<And>v. parse_id_from_file1 v = (if printable v then Inr (id1 v) else Inl ValueError)"
    unfolding id1_def by (rule parser_printable) (rule parse_id_from_file1_raises)
  have i: "mapM parse_id_from_file1 (map company_raw1 df) =
           (if list_all printable (map company_raw1 df)
            then Inr (map id1 (map company_raw1 df)) else Inl ValueError)"
    by (rule mapM_if) (rule p)
  have a: "mapM parse_amount (map f1_amount df) =
           (if list_all printable (map f1_amount df)
            then Inr (map amount_of (map f1_amount df)) else Inl ValueError)"
    by (rule mapM_if) (rule parse_amount_printable)
  have rd: "list_all readable1 df \<longleftrightarrow>
            list_all printable (map company_raw1 df) \<and> list_all printable (map f1_amount df)"
    by (auto simp: list_all_iff readable1_def)
  have rid: "(\<lambda>r. map_option strip (id1 (company_raw1 r))) = row1_id"
    by (simp add: fun_eq_iff row1_id_def id1_def split: sum.splits)
  have rnm: "(\<lambda>r. strip (text_of (company_raw1 r))) = row1_name"
    by (simp add: fun_eq_iff row1_name_def)
  have rvl: "(\<lambda>r. amount_of (f1_amount r)) = row1_value"
    by (simp add: fun_eq_iff row1_value_def)
  show ?thesis
  proof (cases "list_all readable1 df")
    case False
    then show ?thesis using i a rd by (auto simp: prepare_file1_def Let_def)
  next
    case True
    then have pr: "list_all printable (map company_raw1 df)" "list_all printable (map f1_amount df)"
      using rd by simp_all
    have k: "list_all (\<lambda>r. id1 (company_raw1 r) = None \<or> printable (company_raw1 r)) df"
      using pr(1) by (simp add: list_all_iff)
    have o: "mapM out_row (kept_rows (map id1 (map company_raw1 df)) (map company_raw1 df)
               (map amount_of (map f1_amount df)))
             = Inr (out_rows row1_id row1_value row1_name df)"
      using mapM_out_row_kept [where fid = "\<lambda>r. id1 (company_raw1 r)" and fraw = company_raw1
          and fval = "\<lambda>r. amount_of (f1_amount r)" and df = df] k
      unfolding rid rnm rvl
      by (simp add: comp_def kept_rows_map [where f = "\<lambda>r. id1 (company_raw1 r)" and g = company_raw1
            and h = "\<lambda>r. amount_of (f1_amount r)" and df = df])
    show ?thesis using True pr i a o by (simp add: prepare_file1_def Let_def)
  qed
qed

lemma prepare_file2_out:
  "prepare_file2 df =
     (if list_all readable2 df then groupby_agg (out_rows row2_id row2_value row2_name df)
      else Inl ValueError)"
proof -
  define id2 where "id2 = (\<lambda>v. case parse_id_from_file2 v of Inr i \<Rightarrow> i | Inl e \<Rightarrow> None)"
  have p: "\<And>v. parse_id_from_file2 v = (if printable v then Inr (id2 v) else Inl ValueError)"
    unfolding id2_def by (rule parser_printable) (rule parse_id_from_file2_raises)
  have i: "mapM parse_id_from_file2 (map f2_raw_id df) =
           (if list_all printable (map f2_raw_id df)
            then Inr (map id2 (map f2_raw_id df)) else Inl ValueError)"
    by (rule mapM_if) (rule p)
  have a: "mapM parse_amount (map f2_amount df) =
           (if list_all printable (map f2_amount df)
            then Inr (map amount_of (map f2_amount df)) else Inl ValueError)"
    by (rule mapM_if) (rule parse_amount_printable)
  have rid: "(\<lambda>r. map_option strip (id2 (f2_raw_id r))) = row2_id"
    by (simp add: fun_eq_iff row2_id_def id2_def split: sum.splits)
  have rnm: "(\<lambda>r. strip (text_of (company_raw2 r))) = row2_name"
    by (simp add: fun_eq_iff row2_name_def)
  have rvl: "(\<lambda>r. amount_of (f2_amount r)) = row2_value"
    by (simp add: fun_eq_iff row2_value_def)
  have none: "\<And>r. (id2 (f2_raw_id r) = None) = (row2_id r = None)"
    by (simp add: rid [symmetric])
  have rd: "list_all readable2 df \<longleftrightarrow>
            list_all printable (map f2_raw_id df) \<and> list_all printable (map f2_amount df)
            \<and> list_all (\<lambda>r. id2 (f2_raw_id r) = None \<or> printable (company_raw2 r)) df"
    unfolding none by (auto simp: list_all_iff readable2_def)
  have o: "mapM out_row (kept_rows (map id2 (map f2_raw_id df)) (map company_raw2 df)
               (map amount_of (map f2_amount df)))
             = (if list_all (\<lambda>r. id2 (f2_raw_id r) = None \<or> printable (company_raw2 r)) df
                then Inr (out_rows row2_id row2_value row2_name df) else Inl ValueError)"
    using mapM_out_row_kept [where fid = "\<lambda>r. id2 (f2_raw_id r)" and fraw = company_raw2
        and fval = "\<lambda>r. amount_of (f2_amount r)" and df = df]
    unfolding rid rnm rvl
    by (simp add: comp_def kept_rows_map [where f = "\<lambda>r. id2 (f2_raw_id r)" and g = company_raw2
          and h = "\<lambda>r. amount_of (f2_amount r)" and df = df])
  show ?thesis
  proof (cases "list_all readable2 df")
    case False
    then show ?thesis using i a o rd by (auto simp: prepare_file2_def Let_def)
  next
    case True
    then show ?thesis using i a o rd by (simp add: prepare_file2_def Let_def)
  qed
qed

lemma prepare_file1_Inr:
  "prepare_file1 df = Inr agg \<Longrightarrow>
     list_all readable1 df \<and> groupby_agg (out_rows row1_id row1_value row1_name df) = Inr agg"
  unfolding prepare_file1_out by (simp split: if_splits)

lemma prepare_file2_Inr:
  "prepare_file2 df = Inr agg \<Longrightarrow>
     list_all readable2 df \<and> groupby_agg (out_rows row2_id row2_value row2_name df) = Inr agg"
  unfolding prepare_file2_out by (simp split: if_splits)

lemma filter_out_rows:
  "filter (\<lambda>e. fst e = k) (out_rows rid rval rname df) =
     map (\<lambda>r. (k, rval r, Some (rname r))) (filter (\<lambda>r. rid r = Some k) df)"
  by (induction df) (auto simp: out_rows_def split: option.splits)

lemma map_fst_out_rows: "map fst (out_rows rid rval rname df) = not_none (map rid df)"
  by (induction df) (auto simp: out_rows_def not_none_def split: option.splits)

lemma out_rows_discard:
  "out_rows rid rval rname (filter (\<lambda>r. rid r \<noteq> None) df) = out_rows rid rval rname df"
  by (induction df) (auto simp: out_rows_def)

lemma set_not_none: "set (not_none xs) = {k. Some k \<in> set xs}"
  by (induction xs) (auto simp: not_none_def split: option.splits)

lemma first_map_Some: "xs \<noteq> [] \<Longrightarrow> first (map (\<lambda>r. Some (f r)) xs) = Some (f (hd xs))"
  by (cases xs) simp_all

lemma list_all2_set2: "list_all2 P xs ys \<Longrightarrow> y \<in> set ys \<Longrightarrow> \<exists>x\<in>set xs. P x y"
  by (induction rule: list_all2_induct) auto

lemma list_all2_map_eq: "list_all2 (\<lambda>k a. f a = k) ks xs \<Longrightarrow> map f xs = ks"
  by (induction rule: list_all2_induct) auto

lemma agg_group_Inr_D:
  "agg_group out k = Inr a \<Longrightarrow>
     agg_id a = k \<and>
     sum_not_none (map (\<lambda>r. fst (snd r)) (filter (\<lambda>r. fst r = k) out)) = Inr (agg_amount a) \<and>
     agg_name a = first (map (\<lambda>r. snd (snd r)) (filter (\<lambda>r. fst r = k) out))"
  by (auto simp: agg_group_def Let_def split: sum.splits)

lemma agg_group_out_rows:
  assumes "agg_group (out_rows rid rval rname df) k = Inr a"
  shows "agg_id a = k"
    and "sum_decimal zero (not_none (map rval (filter (\<lambda>r. rid r = Some k) df))) = Inr (agg_amount a)"
    and "agg_name a = first (map (\<lambda>r. Some (rname r)) (filter (\<lambda>r. rid r = Some k) df))"
proof -
  note d = agg_group_Inr_D [OF assms, unfolded filter_out_rows]
  show "agg_id a = k" using d by simp
  have m1: "map (\<lambda>r. fst (snd r)) (map (\<lambda>r. (k, rval r, Some (rname r))) (filter (\<lambda>r. rid r = Some k) df))
        = map rval (filter (\<lambda>r. rid r = Some k) df)" by simp
  have m2: "map (\<lambda>r. snd (snd r)) (map (\<lambda>r. (k, rval r, Some (rname r))) (filter (\<lambda>r. rid r = Some k) df))
        = map (\<lambda>r. Some (rname r)) (filter (\<lambda>r. rid r = Some k) df)" by simp
  show "sum_decimal zero (not_none (map rval (filter (\<lambda>r. rid r = Some k) df))) = Inr (agg_amount a)"
    using d unfolding m1 sum_not_none_def by simp
  show "agg_name a = first (map (\<lambda>r. Some (rname r)) (filter (\<lambda>r. rid r = Some k) df))"
    using d unfolding m2 by simp
qed

lemma groupby_agg_aggregated:
  assumes "groupby_agg (out_rows rid rval rname df) = Inr agg"
  shows "aggregated rid rval rname df agg"
proof -
  let ?out = "out_rows rid rval rname df"
  let ?keys = "sort (remdups (not_none (map rid df)))"
  have l2: "list_all2 (\<lambda>k a. agg_group ?out k = Inr a) ?keys agg"
    using assms unfolding groupby_agg_def map_fst_out_rows by (rule mapM_Inr_D)
  have "list_all2 (\<lambda>k a. agg_id a = k) ?keys agg"
    using l2 by (rule list_all2_mono) (rule agg_group_out_rows(1))
  then have ids: "map agg_id agg = ?keys"
    by (rule list_all2_map_eq)
  have rows: "\<And>a. a \<in> set agg \<Longrightarrow>
                  filter (\<lambda>r. rid r = Some (agg_id a)) df \<noteq> [] \<and>
                  sum_decimal zero (not_none (map rval (filter (\<lambda>r. rid r = Some (agg_id a)) df))) = Inr (agg_amount a)
                  \<and> agg_name a = Some (rname (hd (filter (\<lambda>r. rid r = Some (agg_id a)) df)))"
  proof -
    fix a assume a: "a \<in> set agg"
    from list_all2_set2 [OF l2 a] obtain k where k: "k \<in> set ?keys" "agg_group ?out k = Inr a"
      by blast
    note g = agg_group_out_rows [OF k(2)]
    let ?g = "filter (\<lambda>r. rid r = Some k) df"
    have "Some k \<in> set (map rid df)" using k(1) by (simp add: set_not_none)
    then have ne: "?g \<noteq> []" by (auto simp: filter_empty_conv)
    have "agg_name a = Some (rname (hd ?g))" using g(3) ne by (simp add: first_map_Some)
    with ne g(2) show "filter (\<lambda>r. rid r = Some (agg_id a)) df \<noteq> [] \<and>
                  sum_decimal zero (not_none (map rval (filter (\<lambda>r. rid r = Some (agg_id a)) df))) = Inr (agg_amount a)
                  \<and> agg_name a = Some (rname (hd (filter (\<lambda>r. rid r = Some (agg_id a)) df)))"
      unfolding g(1) by simp
  qed
  show ?thesis unfolding aggregated_def Let_def list_all_iff
  proof (rule conjI)
    show "map agg_id agg = ?keys" by (rule ids)
    show "\<forall>a\<in>set agg. filter (\<lambda>r. rid r = Some (agg_id a)) df \<noteq> [] \<and>
                  sum_decimal zero (not_none (map rval (filter (\<lambda>r. rid r = Some (agg_id a)) df))) = Inr (agg_amount a)
                  \<and> agg_name a = Some (rname (hd (filter (\<lambda>r. rid r = Some (agg_id a)) df)))"
      by (rule ballI) (rule rows)
  qed
qed

lemma exact_sum_not_none: "exact_sum vs = (\<Sum>d\<leftarrow>not_none vs. dec_val d)"
  by (induction vs) (auto simp: exact_sum_def not_none_def split: option.splits)

lemma not_none_Cons [simp]:
  "not_none (None # xs) = not_none xs" "not_none (Some x # xs) = x # not_none xs" "not_none [] = []"
  by (simp_all add: not_none_def)

lemma fits_sub:
  assumes "fits q (not_none (map rval (filter P df)))" "\<And>r. Q r \<Longrightarrow> P r"
  shows "fits q (not_none (map rval (filter Q df)))"
proof -
  have "set (not_none (map rval (filter Q df))) \<subseteq> set (not_none (map rval (filter P df)))"
    using assms(2) by (auto simp: set_not_none)
  then have t: "list_all (tame q) (not_none (map rval (filter P df))) \<Longrightarrow>
           list_all (tame q) (not_none (map rval (filter Q df)))"
    by (auto simp: list_all_iff)
  have s: "(\<Sum>d\<leftarrow>not_none (map rval (filter Q df)). \<bar>units q d\<bar>)
           \<le> (\<Sum>d\<leftarrow>not_none (map rval (filter P df)). \<bar>units q d\<bar>)"
    using assms(2)
  proof (induction df)
    case Nil
    show ?case by simp
  next
    case (Cons r df)
    have a: "0 \<le> \<bar>units q d\<bar>" for d by simp
    from Cons show ?case
      by (cases "rval r"; cases "Q r"; cases "P r") (simp_all add: add_increasing)
  qed
  show ?thesis using assms(1) t s by (simp add: fits_def)
qed

lemma groupby_agg_exact:
  assumes "fits q (not_none (map rval (filter (\<lambda>r. rid r \<noteq> None) df)))"
  shows "\<exists>agg. groupby_agg (out_rows rid rval rname df) = Inr agg \<and>
           list_all (\<lambda>a. dec_val (agg_amount a) =
                          exact_sum (map rval (filter (\<lambda>r. rid r = Some (agg_id a)) df))) agg"
proof -
  let ?out = "out_rows rid rval rname df"
  let ?keys = "sort (remdups (map fst ?out))"
  have grp: "\<And>k. \<exists>a. agg_group ?out k = Inr a \<and> agg_id a = k \<and>
                 dec_val (agg_amount a) = exact_sum (map rval (filter (\<lambda>r. rid r = Some k) df))"
  proof -
    fix k
    let ?g = "filter (\<lambda>r. rid r = Some k) df"
    have "fits q (not_none (map rval ?g))" using assms by (rule fits_sub) simp
    from sum_decimal_zero_exact [OF this] obtain t
      where t: "sum_decimal zero (not_none (map rval ?g)) = Inr t"
        "dec_val t = (\<Sum>d\<leftarrow>not_none (map rval ?g). dec_val d)" by blast
    have m1: "map (\<lambda>r. fst (snd r)) (map (\<lambda>r. (k, rval r, Some (rname r))) ?g) = map rval ?g" by simp
    have "agg_group ?out k = Inr \<lparr>agg_id = k, agg_amount = t,
            agg_name = first (map (\<lambda>r. snd (snd r)) (filter (\<lambda>r. fst r = k) ?out))\<rparr>"
      using t(1) unfolding agg_group_def Let_def filter_out_rows m1 sum_not_none_def by simp
    then show "\<exists>a. agg_group ?out k = Inr a \<and> agg_id a = k \<and>
                 dec_val (agg_amount a) = exact_sum (map rval ?g)"
      using t(2) by (simp add: exact_sum_not_none)
  qed
  then have "\<And>k. k \<in> set ?keys \<Longrightarrow> \<exists>a. agg_group ?out k = Inr a" by blast
  from mapM_total [of ?keys "agg_group ?out", OF this]
  obtain agg where agg: "groupby_agg ?out = Inr agg" by (auto simp: groupby_agg_def)
  then have l2: "list_all2 (\<lambda>k a. agg_group ?out k = Inr a) ?keys agg"
    by (simp add: groupby_agg_def mapM_Inr)
  have "\<forall>a\<in>set agg. dec_val (agg_amount a) =
          exact_sum (map rval (filter (\<lambda>r. rid r = Some (agg_id a)) df))"
  proof
    fix a assume a: "a \<in> set agg"
    from list_all2_set2 [OF l2 a] obtain k where k: "agg_group ?out k = Inr a"
      by blast
    with grp [of k] show "dec_val (agg_amount a) =
          exact_sum (map rval (filter (\<lambda>r. rid r = Some (agg_id a)) df))" by auto
  qed
  with agg show ?thesis by (auto simp: list_all_iff)
qed

section \<open>The join and the summary\<close>

lemma lookup_None: "lookup t k = None \<longleftrightarrow> k \<notin> agg_id ` set t"
  by (auto simp: lookup_def find_None_iff)

lemma lookup_Some: "lookup t k = Some a \<Longrightarrow> a \<in> set t \<and> agg_id a = k"
  unfolding lookup_def by (induction t) (auto split: if_splits)

lemma filter_lookup:
  "distinct (map agg_id t) \<Longrightarrow>
     filter (\<lambda>a. agg_id a = k) t = (case lookup t k of None \<Rightarrow> [] | Some a \<Rightarrow> [a])"
proof (induction t)
  case Nil
  show ?case by (simp add: lookup_def)
next
  case (Cons a t)
  show ?case
  proof (cases "agg_id a = k")
    case True
    then have "k \<notin> agg_id ` set t" using Cons.prems by auto
    then have "filter (\<lambda>a. agg_id a = k) t = []" by (auto simp: filter_empty_conv)
    with True show ?thesis by (simp add: lookup_def)
  next
    case False
    with Cons show ?thesis by (simp add: lookup_def)
  qed
qed

lemma merge_outer_distinct:
  assumes "distinct (map agg_id left)" "distinct (map agg_id right)"
  shows "merge_outer left right =
           map (\<lambda>k. (k, lookup left k, lookup right k))
               (sort (remdups (map agg_id left @ map agg_id right)))"
proof -
  have one: "\<And>t k. distinct (map agg_id t) \<Longrightarrow>
      (if filter (\<lambda>a. agg_id a = k) t = [] then [None] else map Some (filter (\<lambda>a. agg_id a = k) t))
      = [lookup t k]"
    by (simp add: filter_lookup split: option.splits)
  show ?thesis
    unfolding merge_outer_def Let_def one [OF assms(1)] one [OF assms(2)]
    by (induction "sort (remdups (map agg_id left @ map agg_id right))") simp_all
qed

lemma keys_sorted: "sorted (sort (remdups xs))" "distinct (sort (remdups xs))"
  "set (sort (remdups xs)) = set xs"
  by simp_all

lemma list_all2_zip3:
  assumes "list_all2 (\<lambda>m d. P m d) ms ds" "list_all2 (\<lambda>md s. Q (fst md) (snd md) s) (zip ms ds) ss"
  shows "list_all2 (\<lambda>m x. \<exists>d s. x = ((m, d), s) \<and> P m d \<and> Q m d s) ms (zip (zip ms ds) ss)"
proof -
  have l1: "length ds = length ms" using assms(1) by (simp add: list_all2_lengthD)
  have l2: "length ss = length ms" using assms(2) l1 by (auto dest: list_all2_lengthD)
  show ?thesis
    unfolding list_all2_conv_all_nth
  proof (intro conjI allI impI)
    show "length ms = length (zip (zip ms ds) ss)" using l1 l2 by simp
  next
    fix i assume i: "i < length ms"
    have p: "P (ms ! i) (ds ! i)" using assms(1) i by (simp add: list_all2_conv_all_nth)
    have "Q (fst (zip ms ds ! i)) (snd (zip ms ds ! i)) (ss ! i)"
      using assms(2) i l1 by (simp add: list_all2_conv_all_nth)
    then have q: "Q (ms ! i) (ds ! i) (ss ! i)" using i l1 by simp
    have "zip (zip ms ds) ss ! i = ((ms ! i, ds ! i), ss ! i)" using i l1 l2 by simp
    with p q show "\<exists>d s. zip (zip ms ds) ss ! i = ((ms ! i, d), s) \<and> P (ms ! i) d \<and> Q (ms ! i) d s"
      by blast
  qed
qed

lemma list_all2_map_eq': "list_all2 (\<lambda>k r. f r = k) ks rs \<Longrightarrow> map f rs = ks"
  by (induction rule: list_all2_induct) auto

lemma reconcile_rows:
  assumes r: "reconcile f1 f2 left right = Inr (detail, summary)"
    and dl: "distinct (map agg_id left)" and dr: "distinct (map agg_id right)"
  shows "list_all2 (detail_of f1 f2 left right)
           (sort (remdups (map agg_id left @ map agg_id right))) detail"
    and "summarise detail = Inr summary"
proof -
  let ?K = "sort (remdups (map agg_id left @ map agg_id right))"
  let ?g = "\<lambda>k. filled (k, lookup left k, lookup right k)"
  let ?merged = "map ?g ?K"
  have m: "map filled (merge_outer left right) = ?merged"
    by (simp add: merge_outer_distinct [OF dl dr] comp_def)
  from r obtain deltas where d: "mapM row_delta ?merged = Inr deltas"
    unfolding reconcile_def Let_def m by (auto split: sum.splits)
  from r d obtain statuses where s: "mapM (row_status f1 f2) (zip ?merged deltas) = Inr statuses"
    unfolding reconcile_def Let_def m by (auto split: sum.splits)
  let ?rows = "map make_detail (zip (zip ?merged deltas) statuses)"
  from r d s have det: "detail = sort_key company_id ?rows" and sm: "summarise (sort_key company_id ?rows) = Inr summary"
    unfolding reconcile_def Let_def m by (auto split: sum.splits)
  have a1: "list_all2 (\<lambda>m d. row_delta m = Inr d) ?merged deltas" using d by (rule mapM_Inr_D)
  have a2: "list_all2 (\<lambda>md s. row_status f1 f2 (fst md, snd md) = Inr s) (zip ?merged deltas) statuses"
    using mapM_Inr_D [OF s] by simp
  have z: "list_all2 (\<lambda>m x. \<exists>d s. x = ((m, d), s) \<and> row_delta m = Inr d \<and> row_status f1 f2 (m, d) = Inr s)
             ?merged (zip (zip ?merged deltas) statuses)"
    using list_all2_zip3 [of "\<lambda>m d. row_delta m = Inr d" ?merged deltas
        "\<lambda>m d s. row_status f1 f2 (m, d) = Inr s" statuses, OF a1 a2] .
  have step: "\<And>k x. \<exists>d s. x = ((?g k, d), s) \<and> row_delta (?g k) = Inr d \<and> row_status f1 f2 (?g k, d) = Inr s
                \<Longrightarrow> detail_of f1 f2 left right k (make_detail x)"
    by (auto simp: detail_of_def make_detail_def filled_def row_delta_def row_status_def)
  have "list_all2 (\<lambda>k x. \<exists>d s. x = ((?g k, d), s) \<and> row_delta (?g k) = Inr d \<and> row_status f1 f2 (?g k, d) = Inr s)
          ?K (zip (zip ?merged deltas) statuses)"
    using z by (simp add: list_all2_map1)
  then have "list_all2 (\<lambda>k x. detail_of f1 f2 left right k (make_detail x)) ?K (zip (zip ?merged deltas) statuses)"
    by (rule list_all2_mono) (rule step)
  then have rows: "list_all2 (detail_of f1 f2 left right) ?K ?rows" by (simp add: list_all2_map2)
  have "list_all2 (\<lambda>k r. company_id r = k) ?K ?rows"
    using rows by (rule list_all2_mono) (simp add: detail_of_def)
  then have "map company_id ?rows = ?K" by (rule list_all2_map_eq')
  then have "sorted (map company_id ?rows)" by simp
  then have id: "sort_key company_id ?rows = ?rows" by (rule sort_key_id_if_sorted)
  show "list_all2 (detail_of f1 f2 left right) ?K detail" using rows det id by simp
  show "summarise detail = Inr summary" using sm det by simp
qed

lemma summary_group_D:
  assumes "summary_group detail st = Inr s"
  shows "summary_status s = st"
    and "rows s = length (filter (\<lambda>r. status r = st) detail)"
    and "sum_decimal zero (map amount_1 (filter (\<lambda>r. status r = st) detail)) = Inr (total_amount_1 s)"
    and "sum_decimal zero (map amount_2 (filter (\<lambda>r. status r = st) detail)) = Inr (total_amount_2 s)"
    and "sum_decimal zero (map delta (filter (\<lambda>r. status r = st) detail)) = Inr (total_delta s)"
  using assms by (auto simp: summary_group_def Let_def split: sum.splits)

lemma summarise_groups:
  assumes "summarise detail = Inr summary"
  shows "list_all2 (\<lambda>st s. summary_group detail st = Inr s) (sort (remdups (map status detail))) summary"
proof -
  let ?K = "sort (remdups (map status detail))"
  from assms obtain groups where g: "mapM (summary_group detail) ?K = Inr groups"
    and s: "summary = sort_key summary_status groups"
    by (auto simp: summarise_def split: sum.splits)
  have l2: "list_all2 (\<lambda>st s. summary_group detail st = Inr s) ?K groups" using g by (rule mapM_Inr_D)
  then have "list_all2 (\<lambda>st s. summary_status s = st) ?K groups"
    by (rule list_all2_mono) (rule summary_group_D(1))
  then have "map summary_status groups = ?K" by (rule list_all2_map_eq')
  then have "sorted (map summary_status groups)" by simp
  then have "sort_key summary_status groups = groups" by (rule sort_key_id_if_sorted)
  with l2 s show ?thesis by simp
qed

lemma summarise_summarised:
  assumes "summarise detail = Inr summary"
  shows "summarised detail summary"
proof -
  let ?K = "sort (remdups (map status detail))"
  note l2 = summarise_groups [OF assms]
  have "list_all2 (\<lambda>st s. summary_status s = st) ?K summary"
    using l2 by (rule list_all2_mono) (rule summary_group_D(1))
  then have ids: "map summary_status summary = ?K" by (rule list_all2_map_eq')
  have rows: "\<And>s. s \<in> set summary \<Longrightarrow>
      rows s = length (filter (\<lambda>r. status r = summary_status s) detail) \<and>
      sum_decimal zero (map amount_1 (filter (\<lambda>r. status r = summary_status s) detail)) = Inr (total_amount_1 s) \<and>
      sum_decimal zero (map amount_2 (filter (\<lambda>r. status r = summary_status s) detail)) = Inr (total_amount_2 s) \<and>
      sum_decimal zero (map delta (filter (\<lambda>r. status r = summary_status s) detail)) = Inr (total_delta s)"
  proof -
    fix s assume s: "s \<in> set summary"
    from list_all2_set2 [OF l2 s] obtain st where st: "summary_group detail st = Inr s" by blast
    note d = summary_group_D [OF st]
    show "rows s = length (filter (\<lambda>r. status r = summary_status s) detail) \<and>
      sum_decimal zero (map amount_1 (filter (\<lambda>r. status r = summary_status s) detail)) = Inr (total_amount_1 s) \<and>
      sum_decimal zero (map amount_2 (filter (\<lambda>r. status r = summary_status s) detail)) = Inr (total_amount_2 s) \<and>
      sum_decimal zero (map delta (filter (\<lambda>r. status r = summary_status s) detail)) = Inr (total_delta s)"
      unfolding d(1) using d(2-5) by simp
  qed
  show ?thesis unfolding summarised_def Let_def list_all_iff
  proof (rule conjI)
    show "map summary_status summary = ?K" by (rule ids)
    show "\<forall>s\<in>set summary.
      rows s = length (filter (\<lambda>r. status r = summary_status s) detail) \<and>
      sum_decimal zero (map amount_1 (filter (\<lambda>r. status r = summary_status s) detail)) = Inr (total_amount_1 s) \<and>
      sum_decimal zero (map amount_2 (filter (\<lambda>r. status r = summary_status s) detail)) = Inr (total_amount_2 s) \<and>
      sum_decimal zero (map delta (filter (\<lambda>r. status r = summary_status s) detail)) = Inr (total_delta s)"
      by (rule ballI) (rule rows)
  qed
qed

lemma indicator_sum: "distinct ks \<Longrightarrow> k \<in> set ks \<Longrightarrow> (\<Sum>j\<leftarrow>ks. if k = j then 1 else 0) = (1::nat)"
  by (induction ks) auto

lemma indicator_sum0: "k \<notin> set ks \<Longrightarrow> (\<Sum>j\<leftarrow>ks. if k = j then 1 else 0) = (0::nat)"
  by (induction ks) auto

lemma count_partition:
  "distinct ks \<Longrightarrow> set (map f xs) \<subseteq> set ks \<Longrightarrow>
     (\<Sum>k\<leftarrow>ks. length (filter (\<lambda>x. f x = k) xs)) = length xs"
proof (induction xs)
  case Nil
  show ?case by simp
next
  case (Cons x xs)
  have "(\<Sum>k\<leftarrow>ks. length (filter (\<lambda>y. f y = k) (x # xs)))
        = (\<Sum>k\<leftarrow>ks. (if f x = k then 1 else 0) + length (filter (\<lambda>y. f y = k) xs))"
    by (intro arg_cong [where f = sum_list] map_cong refl) simp
  also have "\<dots> = (\<Sum>k\<leftarrow>ks. if f x = k then 1 else 0) + (\<Sum>k\<leftarrow>ks. length (filter (\<lambda>y. f y = k) xs))"
    by (simp add: sum_list_addf)
  also have "\<dots> = 1 + length xs"
    using Cons indicator_sum [of ks "f x"] by simp
  finally show ?case by simp
qed

lemma summarised_counts:
  assumes "summarised detail summary"
  shows "sum_list (map rows summary) = length detail"
proof -
  let ?K = "sort (remdups (map status detail))"
  have ids: "map summary_status summary = ?K" using assms by (simp add: summarised_def)
  have "map rows summary = map (\<lambda>s. length (filter (\<lambda>r. status r = summary_status s) detail)) summary"
    using assms by (intro map_cong refl) (simp add: summarised_def list_all_iff Let_def)
  also have "\<dots> = map (\<lambda>k. length (filter (\<lambda>r. status r = k) detail)) (map summary_status summary)"
    by (simp add: comp_def)
  finally have "sum_list (map rows summary) = (\<Sum>k\<leftarrow>?K. length (filter (\<lambda>r. status r = k) detail))"
    unfolding ids by simp
  also have "\<dots> = length detail" by (rule count_partition) simp_all
  finally show ?thesis .
qed

lemma mapM_map_pure:
  "(\<And>k. k \<in> set ks \<Longrightarrow> f (g k) = Inr (h k)) \<Longrightarrow> mapM f (map g ks) = Inr (map h ks)"
  by (induction ks) simp_all

lemma fits_all_tame: "fits q ds \<Longrightarrow> d \<in> set ds \<Longrightarrow> tame q d"
  by (simp add: fits_def list_all_iff)

lemma member_le_sum_abs: "d \<in> set ds \<Longrightarrow> \<bar>units q d\<bar> \<le> (\<Sum>v\<leftarrow>ds. \<bar>units q v\<bar>)"
proof (induction ds)
  case Nil
  then show ?case by simp
next
  case (Cons a ds)
  have "0 \<le> (\<Sum>v\<leftarrow>ds. \<bar>units q v\<bar>)" by (rule sum_abs_nonneg)
  with Cons show ?case by auto
qed

lemma fillna_tame: "tame q d \<Longrightarrow> fillna (Some d) = d"
  by (cases d) (simp_all add: tame_def)

lemma tame_zero: "tame q zero"
  by (simp add: zero_def tame_def Etop_def Emax_def prec_def)

lemma units_zero: "units q zero = 0"
  by (simp add: zero_def units_def)

text \<open>the amount of one side of the merged row\<close>

lemma side_tame:
  assumes "list_all (tame q) (map agg_amount t)"
  shows "tame q (fillna (map_option agg_amount (lookup t k)))"
proof (cases "lookup t k")
  case None
  then show ?thesis by (simp add: tame_zero)
next
  case (Some a)
  then have "a \<in> set t" using lookup_Some by blast
  then have "tame q (agg_amount a)" using assms by (simp add: list_all_iff)
  with Some show ?thesis by (simp add: fillna_tame)
qed

lemma side_sum:
  assumes "list_all (tame q) (map agg_amount t)" "distinct ks"
  shows "(\<Sum>k\<leftarrow>ks. \<bar>units q (fillna (map_option agg_amount (lookup t k)))\<bar>)
           \<le> (\<Sum>a\<leftarrow>t. \<bar>units q (agg_amount a)\<bar>)"
  using assms(1)
proof (induction t)
  case Nil
  show ?case by (simp add: lookup_def units_zero)
next
  case (Cons a t)
  let ?w = "\<bar>units q (agg_amount a)\<bar>"
  let ?h = "\<lambda>k. \<bar>units q (fillna (map_option agg_amount (lookup t k)))\<bar>"
  have ta: "tame q (agg_amount a)" using Cons.prems by simp
  have e: "\<And>k. \<bar>units q (fillna (map_option agg_amount (lookup (a # t) k)))\<bar>
              = (if agg_id a = k then ?w else ?h k)"
    using ta by (simp add: lookup_def fillna_tame)
  have ind: "(\<Sum>k\<leftarrow>ks. if agg_id a = k then ?w else ?h k) \<le> ?w + (\<Sum>k\<leftarrow>ks. ?h k)"
    using assms(2)
  proof (induction ks)
    case Nil
    show ?case by simp
  next
    case (Cons k ks)
    show ?case
    proof (cases "agg_id a = k")
      case True
      then have "agg_id a \<notin> set ks" using Cons.prems by auto
      then have "(\<Sum>j\<leftarrow>ks. if agg_id a = j then ?w else ?h j) = (\<Sum>j\<leftarrow>ks. ?h j)"
        by (intro arg_cong [where f = sum_list] map_cong refl) auto
      with True show ?thesis by simp
    next
      case False
      with Cons show ?thesis by simp
    qed
  qed
  have "(\<Sum>k\<leftarrow>ks. ?h k) \<le> (\<Sum>b\<leftarrow>t. \<bar>units q (agg_amount b)\<bar>)" using Cons by simp
  with ind show ?case unfolding e by simp
qed

lemma fits_append:
  "fits q (xs @ ys) \<longleftrightarrow> int q \<le> - Etiny \<and> list_all (tame q) xs \<and> list_all (tame q) ys \<and>
     (\<Sum>d\<leftarrow>xs. \<bar>units q d\<bar>) + (\<Sum>d\<leftarrow>ys. \<bar>units q d\<bar>) < 10 ^ prec"
  by (auto simp: fits_def)

lemma fits_filter: "fits q (map f xs) \<Longrightarrow> fits q (map f (filter P xs))"
proof -
  assume a: "fits q (map f xs)"
  have "(\<Sum>x\<leftarrow>filter P xs. \<bar>units q (f x)\<bar>) \<le> (\<Sum>x\<leftarrow>xs. \<bar>units q (f x)\<bar>)"
    by (induction xs) (simp_all add: add_increasing)
  with a show ?thesis by (auto simp: fits_def list_all_iff comp_def)
qed

lemma sum_decimal_zero_exact_map:
  assumes "fits q (map f xs)"
  shows "\<exists>t. sum_decimal zero (map f (filter P xs)) = Inr t \<and>
             dec_val t = (\<Sum>r\<leftarrow>filter P xs. dec_val (f r))"
proof -
  from sum_decimal_zero_exact [OF fits_filter [OF assms, of P]]
  obtain t where "sum_decimal zero (map f (filter P xs)) = Inr t"
    "dec_val t = (\<Sum>d\<leftarrow>map f (filter P xs). dec_val d)" by blast
  then show ?thesis by (auto simp: comp_def)
qed

lemma summarise_exact:
  assumes "fits q (map amount_1 detail)" "fits q (map amount_2 detail)" "fits q (map delta detail)"
  shows "\<exists>summary. summarise detail = Inr summary \<and>
           list_all (\<lambda>s. let g = filter (\<lambda>r. status r = summary_status s) detail in
                      dec_val (total_amount_1 s) = (\<Sum>r\<leftarrow>g. dec_val (amount_1 r)) \<and>
                      dec_val (total_amount_2 s) = (\<Sum>r\<leftarrow>g. dec_val (amount_2 r)) \<and>
                      dec_val (total_delta s) = (\<Sum>r\<leftarrow>g. dec_val (delta r))) summary"
proof -
  let ?K = "sort (remdups (map status detail))"
  have grp: "\<And>st. \<exists>s. summary_group detail st = Inr s"
  proof -
    fix st
    from sum_decimal_zero_exact_map [OF assms(1), of "\<lambda>r. status r = st"]
    obtain t1 where t1: "sum_decimal zero (map amount_1 (filter (\<lambda>r. status r = st) detail)) = Inr t1" by blast
    from sum_decimal_zero_exact_map [OF assms(2), of "\<lambda>r. status r = st"]
    obtain t2 where t2: "sum_decimal zero (map amount_2 (filter (\<lambda>r. status r = st) detail)) = Inr t2" by blast
    from sum_decimal_zero_exact_map [OF assms(3), of "\<lambda>r. status r = st"]
    obtain td where td: "sum_decimal zero (map delta (filter (\<lambda>r. status r = st) detail)) = Inr td" by blast
    show "\<exists>s. summary_group detail st = Inr s" using t1 t2 td by (simp add: summary_group_def Let_def)
  qed
  then have "\<And>st. st \<in> set ?K \<Longrightarrow> \<exists>s. summary_group detail st = Inr s" by blast
  from mapM_total [of ?K "summary_group detail", OF this]
  obtain groups where "mapM (summary_group detail) ?K = Inr groups" by blast
  then have sm: "summarise detail = Inr (sort_key summary_status groups)" by (simp add: summarise_def)
  note l2 = summarise_groups [OF sm]
  have "\<forall>s\<in>set (sort_key summary_status groups).
          dec_val (total_amount_1 s) = (\<Sum>r\<leftarrow>filter (\<lambda>r. status r = summary_status s) detail. dec_val (amount_1 r)) \<and>
          dec_val (total_amount_2 s) = (\<Sum>r\<leftarrow>filter (\<lambda>r. status r = summary_status s) detail. dec_val (amount_2 r)) \<and>
          dec_val (total_delta s) = (\<Sum>r\<leftarrow>filter (\<lambda>r. status r = summary_status s) detail. dec_val (delta r))"
  proof
    fix s assume s: "s \<in> set (sort_key summary_status groups)"
    from list_all2_set2 [OF l2 s] obtain st where st: "summary_group detail st = Inr s" by blast
    note d = summary_group_D [OF st]
    from sum_decimal_zero_exact_map [OF assms(1), of "\<lambda>r. status r = st"] d(3)
    have e1: "dec_val (total_amount_1 s) = (\<Sum>r\<leftarrow>filter (\<lambda>r. status r = st) detail. dec_val (amount_1 r))" by auto
    from sum_decimal_zero_exact_map [OF assms(2), of "\<lambda>r. status r = st"] d(4)
    have e2: "dec_val (total_amount_2 s) = (\<Sum>r\<leftarrow>filter (\<lambda>r. status r = st) detail. dec_val (amount_2 r))" by auto
    from sum_decimal_zero_exact_map [OF assms(3), of "\<lambda>r. status r = st"] d(5)
    have e3: "dec_val (total_delta s) = (\<Sum>r\<leftarrow>filter (\<lambda>r. status r = st) detail. dec_val (delta r))" by auto
    show "dec_val (total_amount_1 s) = (\<Sum>r\<leftarrow>filter (\<lambda>r. status r = summary_status s) detail. dec_val (amount_1 r)) \<and>
          dec_val (total_amount_2 s) = (\<Sum>r\<leftarrow>filter (\<lambda>r. status r = summary_status s) detail. dec_val (amount_2 r)) \<and>
          dec_val (total_delta s) = (\<Sum>r\<leftarrow>filter (\<lambda>r. status r = summary_status s) detail. dec_val (delta r))"
      unfolding d(1) using e1 e2 e3 by simp
  qed
  then show ?thesis using sm unfolding Let_def list_all_iff by blast
qed

lemma get_status_tame: "tame q d \<Longrightarrow> \<exists>st. get_status f1 f2 n1 n2 d = Inr st"
  by (cases d) (simp_all add: tame_def get_status_def Let_def)

lemma side_units_le:
  assumes "list_all (tame q) (map agg_amount t)"
  shows "\<bar>units q (fillna (map_option agg_amount (lookup t k)))\<bar> \<le> (\<Sum>a\<leftarrow>t. \<bar>units q (agg_amount a)\<bar>)"
proof (cases "lookup t k")
  case None
  have "0 \<le> (\<Sum>d\<leftarrow>map agg_amount t. \<bar>units q d\<bar>)" by (rule sum_abs_nonneg)
  with None show ?thesis by (simp add: units_zero comp_def)
next
  case (Some a)
  then have a: "a \<in> set t" using lookup_Some by blast
  then have "tame q (agg_amount a)" using assms by (simp add: list_all_iff)
  then have f: "fillna (Some (agg_amount a)) = agg_amount a" by (rule fillna_tame)
  have "agg_amount a \<in> set (map agg_amount t)" using a by simp
  from member_le_sum_abs [OF this, of q] show ?thesis using Some f by (simp add: comp_def)
qed

lemma zip_map_same: "zip (map f xs) (map g xs) = map (\<lambda>x. (f x, g x)) xs"
  by (induction xs) simp_all

lemma sum_list_abs_diff:
  "(\<Sum>k\<leftarrow>ks. \<bar>f k - g k\<bar>) \<le> (\<Sum>k\<leftarrow>ks. \<bar>f k\<bar>) + (\<Sum>k\<leftarrow>ks. \<bar>g k :: int\<bar>)"
proof (induction ks)
  case Nil
  show ?case by simp
next
  case (Cons k ks)
  have "\<bar>f k - g k\<bar> \<le> \<bar>f k\<bar> + \<bar>g k\<bar>" by (rule abs_triangle_ineq4)
  with Cons show ?case by simp
qed

lemma reconcile_exact:
  assumes dl: "distinct (map agg_id left)" and dr: "distinct (map agg_id right)"
    and f: "fits q (map agg_amount left @ map agg_amount right)"
  shows "\<exists>detail summary. reconcile f1 f2 left right = Inr (detail, summary) \<and>
           list_all (\<lambda>r. dec_val (delta r) = dec_val (amount_1 r) - dec_val (amount_2 r)) detail \<and>
           list_all (\<lambda>s. let g = filter (\<lambda>r. status r = summary_status s) detail in
                      dec_val (total_amount_1 s) = (\<Sum>r\<leftarrow>g. dec_val (amount_1 r)) \<and>
                      dec_val (total_amount_2 s) = (\<Sum>r\<leftarrow>g. dec_val (amount_2 r)) \<and>
                      dec_val (total_delta s) = (\<Sum>r\<leftarrow>g. dec_val (delta r))) summary"
proof -
  let ?K = "sort (remdups (map agg_id left @ map agg_id right))"
  define a1 where "a1 = (\<lambda>k. fillna (map_option agg_amount (lookup left k)))"
  define a2 where "a2 = (\<lambda>k. fillna (map_option agg_amount (lookup right k)))"
  define n1 where "n1 = (\<lambda>k. case lookup left k of None \<Rightarrow> None | Some a \<Rightarrow> agg_name a)"
  define n2 where "n2 = (\<lambda>k. case lookup right k of None \<Rightarrow> None | Some a \<Rightarrow> agg_name a)"
  define g where "g = (\<lambda>k. (k, n1 k, n2 k, a1 k, a2 k))"
  define SL where "SL = (\<Sum>a\<leftarrow>left. \<bar>units q (agg_amount a)\<bar>)"
  define SR where "SR = (\<Sum>a\<leftarrow>right. \<bar>units q (agg_amount a)\<bar>)"
  from f have q: "int q \<le> - Etiny" and tl: "list_all (tame q) (map agg_amount left)"
    and tr: "list_all (tame q) (map agg_amount right)" and b: "SL + SR < 10 ^ prec"
    by (simp_all add: fits_append SL_def SR_def comp_def)
  have t1: "\<And>k. tame q (a1 k)" unfolding a1_def using tl by (rule side_tame)
  have t2: "\<And>k. tame q (a2 k)" unfolding a2_def using tr by (rule side_tame)
  have u1: "\<And>k. \<bar>units q (a1 k)\<bar> \<le> SL" unfolding a1_def SL_def using tl by (rule side_units_le)
  have u2: "\<And>k. \<bar>units q (a2 k)\<bar> \<le> SR" unfolding a2_def SR_def using tr by (rule side_units_le)
  have sub: "\<And>k. \<exists>d. dec_sub (a1 k) (a2 k) = Inr d \<and> tame q d \<and> units q d = units q (a1 k) - units q (a2 k)"
  proof -
    fix k
    have "\<bar>units q (a1 k)\<bar> + \<bar>units q (a2 k)\<bar> < 10 ^ prec" using u1 [of k] u2 [of k] b by linarith
    from dec_sub_exact [OF q t1 t2 this]
    show "\<exists>d. dec_sub (a1 k) (a2 k) = Inr d \<and> tame q d \<and> units q d = units q (a1 k) - units q (a2 k)" .
  qed
  define dl' where "dl' = (\<lambda>k. projr (dec_sub (a1 k) (a2 k)))"
  have d: "\<And>k. dec_sub (a1 k) (a2 k) = Inr (dl' k)" "\<And>k. tame q (dl' k)"
    "\<And>k. units q (dl' k) = units q (a1 k) - units q (a2 k)"
    using sub unfolding dl'_def by (metis sum.sel(2))+
  define st where "st = (\<lambda>k. projr (get_status f1 f2 (n1 k) (n2 k) (dl' k)))"
  have s: "\<And>k. get_status f1 f2 (n1 k) (n2 k) (dl' k) = Inr (st k)"
    using get_status_tame [OF d(2)] unfolding st_def by (metis sum.sel(2))
  define row where "row = (\<lambda>k. make_detail ((g k, dl' k), st k))"
  have m: "map filled (merge_outer left right) = map g ?K"
    by (simp add: merge_outer_distinct [OF dl dr] comp_def filled_def g_def n1_def n2_def a1_def a2_def)
  have md: "mapM row_delta (map g ?K) = Inr (map dl' ?K)"
    by (rule mapM_map_pure) (simp add: row_delta_def g_def d(1))
  have ms: "mapM (row_status f1 f2) (zip (map g ?K) (map dl' ?K)) = Inr (map st ?K)"
    unfolding zip_map_same by (rule mapM_map_pure) (simp add: row_status_def g_def s)
  have rows: "map make_detail (zip (zip (map g ?K) (map dl' ?K)) (map st ?K)) = map row ?K"
    unfolding zip_map_same by (simp add: row_def)
  have ids: "map company_id (map row ?K) = ?K"
    by (simp add: comp_def row_def make_detail_def g_def)
  have "sorted (map company_id (map row ?K))" unfolding ids by simp
  then have sk: "sort_key company_id (map row ?K) = map row ?K" by (rule sort_key_id_if_sorted)
  have c1: "map amount_1 (map row ?K) = map a1 ?K" by (simp add: comp_def row_def make_detail_def g_def)
  have c2: "map amount_2 (map row ?K) = map a2 ?K" by (simp add: comp_def row_def make_detail_def g_def)
  have cd: "map delta (map row ?K) = map dl' ?K" by (simp add: comp_def row_def make_detail_def g_def)
  have dK: "distinct ?K" by simp
  have s1: "(\<Sum>k\<leftarrow>?K. \<bar>units q (a1 k)\<bar>) \<le> SL" unfolding a1_def SL_def using tl dK by (rule side_sum)
  have s2: "(\<Sum>k\<leftarrow>?K. \<bar>units q (a2 k)\<bar>) \<le> SR" unfolding a2_def SR_def using tr dK by (rule side_sum)
  have sd: "(\<Sum>k\<leftarrow>?K. \<bar>units q (dl' k)\<bar>) \<le> SL + SR"
    using sum_list_abs_diff [of "\<lambda>k. units q (a1 k)" "\<lambda>k. units q (a2 k)" ?K] s1 s2
    by (simp add: d(3))
  have f1: "fits q (map amount_1 (map row ?K))"
    unfolding c1 using q t1 s1 b sum_abs_nonneg [of q "map agg_amount right"]
    by (simp add: fits_def list_all_iff comp_def SR_def)
  have f2: "fits q (map amount_2 (map row ?K))"
    unfolding c2 using q t2 s2 b sum_abs_nonneg [of q "map agg_amount left"]
    by (simp add: fits_def list_all_iff comp_def SL_def)
  have fd: "fits q (map delta (map row ?K))"
    unfolding cd using q d(2) sd b by (simp add: fits_def list_all_iff comp_def)
  from summarise_exact [OF f1 f2 fd] obtain summary
    where sm: "summarise (map row ?K) = Inr summary"
      and ex: "list_all (\<lambda>s. let g = filter (\<lambda>r. status r = summary_status s) (map row ?K) in
                      dec_val (total_amount_1 s) = (\<Sum>r\<leftarrow>g. dec_val (amount_1 r)) \<and>
                      dec_val (total_amount_2 s) = (\<Sum>r\<leftarrow>g. dec_val (amount_2 r)) \<and>
                      dec_val (total_delta s) = (\<Sum>r\<leftarrow>g. dec_val (delta r))) summary"
    by blast
  have rec: "reconcile f1 f2 left right = Inr (map row ?K, summary)"
    unfolding reconcile_def Let_def m by (simp add: md ms rows sk sm)
  have "\<And>k. dec_val (dl' k) = dec_val (a1 k) - dec_val (a2 k)"
    by (simp add: dec_val_units [OF d(2)] dec_val_units [OF t1] dec_val_units [OF t2] d(3) diff_divide_distrib)
  then have "list_all (\<lambda>r. dec_val (delta r) = dec_val (amount_1 r) - dec_val (amount_2 r)) (map row ?K)"
    by (simp add: list_all_iff row_def make_detail_def g_def)
  with rec ex show ?thesis by blast
qed

lemma prepare_file1_aggregated: "prepare_file1 df = Inr agg \<Longrightarrow> aggregated row1_id row1_value row1_name df agg"
  by (rule groupby_agg_aggregated) (simp add: prepare_file1_Inr)

lemma prepare_file2_aggregated: "prepare_file2 df = Inr agg \<Longrightarrow> aggregated row2_id row2_value row2_name df agg"
  by (rule groupby_agg_aggregated) (simp add: prepare_file2_Inr)

lemma aggregated_distinct: "aggregated rid rval rname df agg \<Longrightarrow> distinct (map agg_id agg)"
  by (simp add: aggregated_def)

lemma aggregated_ids: "aggregated rid rval rname df agg \<Longrightarrow> agg_id ` set agg = {k. \<exists>r\<in>set df. rid r = Some k}"
proof -
  assume a: "aggregated rid rval rname df agg"
  have "agg_id ` set agg = set (map agg_id agg)" by simp
  also have "\<dots> = set (not_none (map rid df))" using a by (simp add: aggregated_def)
  also have "\<dots> = {k. \<exists>r\<in>set df. rid r = Some k}" by (force simp: set_not_none)
  finally show ?thesis .
qed

lemma aggregated_name: "aggregated rid rval rname df agg \<Longrightarrow> a \<in> set agg \<Longrightarrow> agg_name a \<noteq> None"
  by (auto simp: aggregated_def list_all_iff Let_def)

lemma compare_reconcile:
  "prepare_file1 df1 = Inr left \<Longrightarrow> prepare_file2 df2 = Inr right \<Longrightarrow>
     compare f1 df1 f2 df2 = reconcile f1 f2 left right"
  by (simp add: compare_def)

lemma compare_Inr_prepare:
  assumes "compare f1 df1 f2 df2 = Inr x"
  obtains left right where "prepare_file1 df1 = Inr left" "prepare_file2 df2 = Inr right"
    "reconcile f1 f2 left right = Inr x"
  using assms by (auto simp: compare_def split: sum.splits)

lemma list_all2_same: "list_all2 P (map f xs) xs \<longleftrightarrow> list_all (\<lambda>x. P (f x) x) xs"
  by (induction xs) simp_all

lemma compare_rows:
  assumes "prepare_file1 df1 = Inr left" "prepare_file2 df2 = Inr right"
    and "compare f1 df1 f2 df2 = Inr (detail, summary)"
  shows "map company_id detail = sort (remdups (map agg_id left @ map agg_id right))"
    and "list_all (\<lambda>r. detail_of f1 f2 left right (company_id r) r) detail"
    and "summarised detail summary"
proof -
  have dl: "distinct (map agg_id left)"
    using prepare_file1_aggregated [OF assms(1)] by (rule aggregated_distinct)
  have dr: "distinct (map agg_id right)"
    using prepare_file2_aggregated [OF assms(2)] by (rule aggregated_distinct)
  have r: "reconcile f1 f2 left right = Inr (detail, summary)"
    using assms by (simp add: compare_reconcile)
  note rr = reconcile_rows [OF r dl dr]
  have "list_all2 (\<lambda>k r. company_id r = k) (sort (remdups (map agg_id left @ map agg_id right))) detail"
    using rr(1) by (rule list_all2_mono) (simp add: detail_of_def)
  then show ids: "map company_id detail = sort (remdups (map agg_id left @ map agg_id right))"
    by (rule list_all2_map_eq')
  show "list_all (\<lambda>r. detail_of f1 f2 left right (company_id r) r) detail"
    using rr(1) unfolding ids [symmetric] by (simp add: list_all2_same)
  show "summarised detail summary" using rr(2) by (rule summarise_summarised)
qed

section \<open>The example frames, evaluated\<close>

lemmas ev_dec = dec_add_def add_finite_def dec_fix_def dec_normalize_def dec_normalize_aux_def
  dec_sub_def prec_def Emax_def Emin_def Etiny_def Etop_def zero_def ndigits_rec

lemmas ev_frame = prepare_file1_def prepare_file2_def company_raw1_def company_raw2_def is_missing_def
  kept_rows_def out_row_def groupby_agg_def agg_group_def sum_not_none_def not_none_def
  str_int_def str_nat.simps digit_char_def

lemmas ev_compare = compare_def reconcile_def merge_outer_def filled_def row_delta_def row_status_def
  get_status_def make_detail_def summarise_def summary_group_def

lemma ex_prepare1: "prepare_file1 ex_df1 = Inr ex_left"
  by (simp add: ex_df1_def ex_left_def ev ev_dec ev_frame)

lemma ex_prepare2: "prepare_file2 ex_df2 = Inr ex_right"
  by (simp add: ex_df2_def ex_right_def ev ev_dec ev_frame)

lemma ex_reconcile: "reconcile ''OC.xlsx'' ''1C.xlsx'' ex_left ex_right = Inr (ex_detail, ex_summary)"
  by (simp add: ex_left_def ex_right_def ex_detail_def ex_summary_def ev_dec ev_compare)

lemma ex_compare: "compare ''OC.xlsx'' ex_df1 ''1C.xlsx'' ex_df2 = Inr (ex_detail, ex_summary)"
  by (simp add: compare_def ex_prepare1 ex_prepare2 ex_reconcile)

section \<open>The claims about the aggregators and compare\<close>

text \<open>
  Claim C3: each aggregator discards the rows whose identifier is absent (the output is
  that of the frame without them), groups the remaining rows by stripped identifier and
  emits one row per distinct identifier, whose name is the name of the first row of the
  group. The amount of the row is the sum that Python computes over the parsed amounts
  of the group, from \<open>Decimal("0")\<close> and without the absent amounts. That sum is carried out
  in the default context of 28 significant digits: when the amounts of the kept rows fit
  that precision, the aggregator returns and every amount is the exact sum of its group,
  an absent amount counting as zero. All of this is for a frame whose rows are readable;
  on any other frame a conversion to \<open>str\<close> raises \<open>ValueError\<close>.
\<close>

theorem prepare_aggregates:
  "(list_all readable1 df1 \<longrightarrow>
      prepare_file1 df1 = prepare_file1 (filter (\<lambda>r. row1_id r \<noteq> None) df1))
   \<and> (list_all readable2 df2 \<longrightarrow>
      prepare_file2 df2 = prepare_file2 (filter (\<lambda>r. row2_id r \<noteq> None) df2))
   \<and> (prepare_file1 df1 = Inr agg1 \<longrightarrow>
         list_all readable1 df1 \<and> aggregated row1_id row1_value row1_name df1 agg1
         \<and> distinct (map agg_id agg1))
   \<and> (prepare_file2 df2 = Inr agg2 \<longrightarrow>
         list_all readable2 df2 \<and> aggregated row2_id row2_value row2_name df2 agg2
         \<and> distinct (map agg_id agg2))
   \<and> (list_all readable1 df1
        \<and> fits q (not_none (map row1_value (filter (\<lambda>r. row1_id r \<noteq> None) df1))) \<longrightarrow>
         (\<exists>agg. prepare_file1 df1 = Inr agg \<and>
            list_all (\<lambda>a. dec_val (agg_amount a) =
                           exact_sum (map row1_value (filter (\<lambda>r. row1_id r = Some (agg_id a)) df1))) agg))
   \<and> (list_all readable2 df2
        \<and> fits q (not_none (map row2_value (filter (\<lambda>r. row2_id r \<noteq> None) df2))) \<longrightarrow>
         (\<exists>agg. prepare_file2 df2 = Inr agg \<and>
            list_all (\<lambda>a. dec_val (agg_amount a) =
                           exact_sum (map row2_value (filter (\<lambda>r. row2_id r = Some (agg_id a)) df2))) agg))
   \<and> (\<not> list_all readable1 df1 \<longrightarrow> prepare_file1 df1 = Inl ValueError)
   \<and> (\<not> list_all readable2 df2 \<longrightarrow> prepare_file2 df2 = Inl ValueError)"
proof (intro conjI impI)
  assume r: "list_all readable1 df1"
  then have "list_all readable1 (filter (\<lambda>r. row1_id r \<noteq> None) df1)" by (simp add: list_all_iff)
  with r show "prepare_file1 df1 = prepare_file1 (filter (\<lambda>r. row1_id r \<noteq> None) df1)"
    by (simp only: prepare_file1_out out_rows_discard if_True)
next
  assume r: "list_all readable2 df2"
  then have "list_all readable2 (filter (\<lambda>r. row2_id r \<noteq> None) df2)" by (simp add: list_all_iff)
  with r show "prepare_file2 df2 = prepare_file2 (filter (\<lambda>r. row2_id r \<noteq> None) df2)"
    by (simp only: prepare_file2_out out_rows_discard if_True)
next
  assume a: "prepare_file1 df1 = Inr agg1"
  show "list_all readable1 df1" using prepare_file1_Inr [OF a] by (rule conjunct1)
  show "aggregated row1_id row1_value row1_name df1 agg1" using a by (rule prepare_file1_aggregated)
  then show "distinct (map agg_id agg1)" by (rule aggregated_distinct)
next
  assume a: "prepare_file2 df2 = Inr agg2"
  show "list_all readable2 df2" using prepare_file2_Inr [OF a] by (rule conjunct1)
  show "aggregated row2_id row2_value row2_name df2 agg2" using a by (rule prepare_file2_aggregated)
  then show "distinct (map agg_id agg2)" by (rule aggregated_distinct)
next
  assume h: "list_all readable1 df1
        \<and> fits q (not_none (map row1_value (filter (\<lambda>r. row1_id r \<noteq> None) df1)))"
  then have r: "list_all readable1 df1"
    and f: "fits q (not_none (map row1_value (filter (\<lambda>r. row1_id r \<noteq> None) df1)))" by simp_all
  have e: "prepare_file1 df1 = groupby_agg (out_rows row1_id row1_value row1_name df1)"
    using r by (simp only: prepare_file1_out if_True)
  show "\<exists>agg. prepare_file1 df1 = Inr agg \<and>
            list_all (\<lambda>a. dec_val (agg_amount a) =
                           exact_sum (map row1_value (filter (\<lambda>r. row1_id r = Some (agg_id a)) df1))) agg"
    unfolding e using f by (rule groupby_agg_exact)
next
  assume h: "list_all readable2 df2
        \<and> fits q (not_none (map row2_value (filter (\<lambda>r. row2_id r \<noteq> None) df2)))"
  then have r: "list_all readable2 df2"
    and f: "fits q (not_none (map row2_value (filter (\<lambda>r. row2_id r \<noteq> None) df2)))" by simp_all
  have e: "prepare_file2 df2 = groupby_agg (out_rows row2_id row2_value row2_name df2)"
    using r by (simp only: prepare_file2_out if_True)
  show "\<exists>agg. prepare_file2 df2 = Inr agg \<and>
            list_all (\<lambda>a. dec_val (agg_amount a) =
                           exact_sum (map row2_value (filter (\<lambda>r. row2_id r = Some (agg_id a)) df2))) agg"
    unfolding e using f by (rule groupby_agg_exact)
next
  assume "\<not> list_all readable1 df1"
  then show "prepare_file1 df1 = Inl ValueError" by (simp only: prepare_file1_out if_False)
next
  assume "\<not> list_all readable2 df2"
  then show "prepare_file2 df2 = Inl ValueError" by (simp only: prepare_file2_out if_False)
qed

lemmas ev_rows = row1_id_def row1_value_def row1_name_def row2_id_def row2_value_def row2_name_def
  amount_of_def company_raw1_def company_raw2_def is_missing_def not_none_def text_of_def
  printable_def readable1_def readable2_def str_int_def str_nat.simps digit_char_def

lemma ex_readable1: "list_all readable1 ex_df1"
  by (simp add: ex_df1_def ev ev_rows)

lemma ex_readable2: "list_all readable2 ex_df2"
  by (simp add: ex_df2_def ev ev_rows)

lemma ex_fits1: "fits 2 (not_none (map row1_value (filter (\<lambda>r. row1_id r \<noteq> None) ex_df1)))"
  by (simp add: ex_df1_def ev ev_rows fits_def tame_def units_def sg_def Etop_def Emax_def Etiny_def Emin_def prec_def)

lemma ex_fits2: "fits 2 (not_none (map row2_value (filter (\<lambda>r. row2_id r \<noteq> None) ex_df2)))"
  by (simp add: ex_df2_def ev ev_rows fits_def tame_def units_def sg_def Etop_def Emax_def Etiny_def Emin_def prec_def)

lemma unreadable_pow10:
  assumes "int_max_str_digits \<le> n"
  shows "\<not> list_all readable1 [\<lparr>f1_name_c = PyNaN, f1_name_d = PyStr ''A [1]'', f1_amount = PyInt (10 ^ n)\<rparr>]"
proof -
  have "py_str (PyInt (10 ^ n)) = Inl ValueError" using assms by (rule py_str_pow10)
  then have "\<not> printable (PyInt (10 ^ n))" by (simp only: printable_def sum.case simp_thms)
  then show ?thesis by (simp add: readable1_def)
qed

lemma ex_unreadable:
  "\<not> list_all readable1 [\<lparr>f1_name_c = PyNaN, f1_name_d = PyStr ''A [1]'', f1_amount = PyInt (10 ^ 4300)\<rparr>]"
  by (rule unreadable_pow10) (simp add: int_max_str_digits_def)

text \<open>
  The example frames are readable, fit the precision, with two decimal places, and
  aggregate exactly. A frame with an amount of 4301 digits is not readable.
\<close>

theorem prepare_aggregates_witness:
  "list_all readable1 ex_df1 \<and> prepare_file1 ex_df1 = Inr ex_left
   \<and> prepare_file1 (filter (\<lambda>r. row1_id r \<noteq> None) ex_df1) = Inr ex_left
   \<and> aggregated row1_id row1_value row1_name ex_df1 ex_left
   \<and> fits 2 (not_none (map row1_value (filter (\<lambda>r. row1_id r \<noteq> None) ex_df1)))
   \<and> list_all (\<lambda>a. dec_val (agg_amount a) =
                    exact_sum (map row1_value (filter (\<lambda>r. row1_id r = Some (agg_id a)) ex_df1))) ex_left
   \<and> list_all readable2 ex_df2 \<and> prepare_file2 ex_df2 = Inr ex_right
   \<and> prepare_file2 (filter (\<lambda>r. row2_id r \<noteq> None) ex_df2) = Inr ex_right
   \<and> aggregated row2_id row2_value row2_name ex_df2 ex_right
   \<and> fits 2 (not_none (map row2_value (filter (\<lambda>r. row2_id r \<noteq> None) ex_df2)))
   \<and> list_all (\<lambda>a. dec_val (agg_amount a) =
                    exact_sum (map row2_value (filter (\<lambda>r. row2_id r = Some (agg_id a)) ex_df2))) ex_right
   \<and> \<not> list_all readable1 [\<lparr>f1_name_c = PyNaN, f1_name_d = PyStr ''A [1]'', f1_amount = PyInt (10 ^ 4300)\<rparr>]
   \<and> prepare_file1 [\<lparr>f1_name_c = PyNaN, f1_name_d = PyStr ''A [1]'', f1_amount = PyInt (10 ^ 4300)\<rparr>]
       = Inl ValueError"
proof -
  note t = prepare_aggregates [of ex_df1 ex_df2 ex_left ex_right 2]
  note t1 = t [THEN conjunct1, THEN mp, OF ex_readable1]
  note t2 = t [THEN conjunct2, THEN conjunct1, THEN mp, OF ex_readable2]
  note t3 = t [THEN conjunct2, THEN conjunct2, THEN conjunct1, THEN mp, OF ex_prepare1]
  note t4 = t [THEN conjunct2, THEN conjunct2, THEN conjunct2, THEN conjunct1, THEN mp, OF ex_prepare2]
  note t5 = t [THEN conjunct2, THEN conjunct2, THEN conjunct2, THEN conjunct2, THEN conjunct1, THEN mp,
               OF conjI [OF ex_readable1 ex_fits1]]
  note t6 = t [THEN conjunct2, THEN conjunct2, THEN conjunct2, THEN conjunct2, THEN conjunct2,
               THEN conjunct1, THEN mp, OF conjI [OF ex_readable2 ex_fits2]]
  note u = prepare_aggregates [of "[\<lparr>f1_name_c = PyNaN, f1_name_d = PyStr ''A [1]'', f1_amount = PyInt (10 ^ 4300)\<rparr>]"
      ex_df2 ex_left ex_right 2]
  note u7 = u [THEN conjunct2, THEN conjunct2, THEN conjunct2, THEN conjunct2, THEN conjunct2,
               THEN conjunct2, THEN conjunct1, THEN mp, OF ex_unreadable]
  have d1: "prepare_file1 (filter (\<lambda>r. row1_id r \<noteq> None) ex_df1) = Inr ex_left"
    using t1 ex_prepare1 by simp
  have d2: "prepare_file2 (filter (\<lambda>r. row2_id r \<noteq> None) ex_df2) = Inr ex_right"
    using t2 ex_prepare2 by simp
  note a1 = t3 [THEN conjunct2, THEN conjunct1]
  note a2 = t4 [THEN conjunct2, THEN conjunct1]
  from t5 obtain agg where "prepare_file1 ex_df1 = Inr agg"
    "list_all (\<lambda>a. dec_val (agg_amount a) =
        exact_sum (map row1_value (filter (\<lambda>r. row1_id r = Some (agg_id a)) ex_df1))) agg" by (elim exE conjE)
  then have e1: "list_all (\<lambda>a. dec_val (agg_amount a) =
        exact_sum (map row1_value (filter (\<lambda>r. row1_id r = Some (agg_id a)) ex_df1))) ex_left"
    using ex_prepare1 by simp
  from t6 obtain agg' where "prepare_file2 ex_df2 = Inr agg'"
    "list_all (\<lambda>a. dec_val (agg_amount a) =
        exact_sum (map row2_value (filter (\<lambda>r. row2_id r = Some (agg_id a)) ex_df2))) agg'" by (elim exE conjE)
  then have e2: "list_all (\<lambda>a. dec_val (agg_amount a) =
        exact_sum (map row2_value (filter (\<lambda>r. row2_id r = Some (agg_id a)) ex_df2))) ex_right"
    using ex_prepare2 by simp
  show ?thesis
    by (intro conjI)
      (rule ex_readable1 ex_readable2 ex_prepare1 ex_prepare2 ex_fits1 ex_fits2 ex_unreadable
         d1 d2 a1 a2 e1 e2 u7)+
qed

text \<open>
  Beyond the precision the amount is not the exact sum: two rows of the identifier 1 with
  the amounts \<open>10000000000000000000000000000\<close> and \<open>1\<close> give the amount \<open>1E+28\<close>, the
  exact sum being \<open>10000000000000000000000000001\<close>.
\<close>

theorem prepare_exact_sum_counterexample:
  "prepare_file1
     [\<lparr>f1_name_c = PyNaN, f1_name_d = PyStr ''A [1]'', f1_amount = PyStr ''10000000000000000000000000000''\<rparr>,
      \<lparr>f1_name_c = PyNaN, f1_name_d = PyStr ''A [1]'', f1_amount = PyInt 1\<rparr>]
     = Inr [\<lparr>agg_id = ''1'', agg_amount = Finite False 1000000000000000000000000000 1, agg_name = Some ''A [1]''\<rparr>]
   \<and> parse_amount (PyStr ''10000000000000000000000000000'') = Inr (Some (Finite False 10000000000000000000000000000 0))
   \<and> parse_amount (PyInt 1) = Inr (Some (Finite False 1 0))
   \<and> exact_sum [Some (Finite False 10000000000000000000000000000 0), Some (Finite False 1 0)]
        = 10000000000000000000000000001
   \<and> dec_val (Finite False 1000000000000000000000000000 1) = 10000000000000000000000000000"
  by (simp add: ev ev_dec ev_frame exact_sum_def)

lemma detail_of_absent:
  assumes "detail_of f1 f2 left right k r"
  shows "k \<notin> agg_id ` set left \<Longrightarrow> amount_1 r = zero \<and> company_name_1 r = None"
    and "k \<notin> agg_id ` set right \<Longrightarrow> amount_2 r = zero \<and> company_name_2 r = None"
  using assms by (simp_all add: detail_of_def lookup_None [symmetric])

text \<open>
  Claim C1: when \<open>compare\<close> returns, its detail table has exactly one row for every
  identifier of either aggregated frame, in ascending order and without duplicates; in
  each row a side without the identifier has no name and the amount \<open>Decimal("0")\<close>, and
  \<open>delta\<close> is what Python's subtraction \<open>amount_1 - amount_2\<close> returns. When the
  aggregated amounts fit the precision of the context, \<open>compare\<close> does return and every
  \<open>delta\<close> is the exact difference of the two amounts.
\<close>

theorem compare_outer_join:
  assumes "prepare_file1 df1 = Inr left" and "prepare_file2 df2 = Inr right"
  shows "(compare f1 df1 f2 df2 = Inr (detail, summary) \<longrightarrow>
            map company_id detail = sort (remdups (map agg_id left @ map agg_id right))
            \<and> distinct (map company_id detail)
            \<and> set (map company_id detail) = agg_id ` set left \<union> agg_id ` set right
            \<and> list_all (\<lambda>r. detail_of f1 f2 left right (company_id r) r) detail
            \<and> list_all (\<lambda>r. (company_id r \<notin> agg_id ` set left \<longrightarrow>
                                 amount_1 r = zero \<and> company_name_1 r = None)
                          \<and> (company_id r \<notin> agg_id ` set right \<longrightarrow>
                                 amount_2 r = zero \<and> company_name_2 r = None)
                          \<and> dec_sub (amount_1 r) (amount_2 r) = Inr (delta r)) detail)
         \<and> (fits q (map agg_amount left @ map agg_amount right) \<longrightarrow>
              (\<exists>detail summary. compare f1 df1 f2 df2 = Inr (detail, summary)
                 \<and> list_all (\<lambda>r. dec_val (delta r) = dec_val (amount_1 r) - dec_val (amount_2 r)) detail))"
proof (intro conjI impI)
  assume c: "compare f1 df1 f2 df2 = Inr (detail, summary)"
  note cr = compare_rows [OF assms c]
  show ids: "map company_id detail = sort (remdups (map agg_id left @ map agg_id right))" by (rule cr(1))
  show "distinct (map company_id detail)" unfolding ids by simp
  show "set (map company_id detail) = agg_id ` set left \<union> agg_id ` set right" unfolding ids by simp
  show "list_all (\<lambda>r. detail_of f1 f2 left right (company_id r) r) detail" by (rule cr(2))
  show "list_all (\<lambda>r. (company_id r \<notin> agg_id ` set left \<longrightarrow>
                                 amount_1 r = zero \<and> company_name_1 r = None)
                          \<and> (company_id r \<notin> agg_id ` set right \<longrightarrow>
                                 amount_2 r = zero \<and> company_name_2 r = None)
                          \<and> dec_sub (amount_1 r) (amount_2 r) = Inr (delta r)) detail"
    unfolding list_all_iff
  proof
    fix r assume "r \<in> set detail"
    then have d: "detail_of f1 f2 left right (company_id r) r" using cr(2) by (simp add: list_all_iff)
    show "(company_id r \<notin> agg_id ` set left \<longrightarrow> amount_1 r = zero \<and> company_name_1 r = None)
          \<and> (company_id r \<notin> agg_id ` set right \<longrightarrow> amount_2 r = zero \<and> company_name_2 r = None)
          \<and> dec_sub (amount_1 r) (amount_2 r) = Inr (delta r)"
    proof (intro conjI)
      show "company_id r \<notin> agg_id ` set left \<longrightarrow> amount_1 r = zero \<and> company_name_1 r = None"
        using detail_of_absent(1) [OF d] by blast
      show "company_id r \<notin> agg_id ` set right \<longrightarrow> amount_2 r = zero \<and> company_name_2 r = None"
        using detail_of_absent(2) [OF d] by blast
      show "dec_sub (amount_1 r) (amount_2 r) = Inr (delta r)"
        using d unfolding detail_of_def by blast
    qed
  qed
next
  assume f: "fits q (map agg_amount left @ map agg_amount right)"
  have dl: "distinct (map agg_id left)"
    using prepare_file1_aggregated [OF assms(1)] by (rule aggregated_distinct)
  have dr: "distinct (map agg_id right)"
    using prepare_file2_aggregated [OF assms(2)] by (rule aggregated_distinct)
  from reconcile_exact [OF dl dr f, of f1 f2]
  show "\<exists>detail summary. compare f1 df1 f2 df2 = Inr (detail, summary)
          \<and> list_all (\<lambda>r. dec_val (delta r) = dec_val (amount_1 r) - dec_val (amount_2 r)) detail"
    unfolding compare_reconcile [OF assms] by blast
qed

lemma ex_fits: "fits 2 (map agg_amount ex_left @ map agg_amount ex_right)"
  by (simp add: ex_left_def ex_right_def fits_def tame_def units_def sg_def Etop_def Emax_def Etiny_def Emin_def prec_def)

text \<open>The example frames: four identifiers, each with one row.\<close>

theorem compare_outer_join_witness:
  "prepare_file1 ex_df1 = Inr ex_left \<and> prepare_file2 ex_df2 = Inr ex_right
   \<and> compare ''OC.xlsx'' ex_df1 ''1C.xlsx'' ex_df2 = Inr (ex_detail, ex_summary)
   \<and> map company_id ex_detail = [''10'', ''12'', ''7'', ''9'']
   \<and> set (map company_id ex_detail) = agg_id ` set ex_left \<union> agg_id ` set ex_right
   \<and> list_all (\<lambda>r. detail_of ''OC.xlsx'' ''1C.xlsx'' ex_left ex_right (company_id r) r) ex_detail
   \<and> fits 2 (map agg_amount ex_left @ map agg_amount ex_right)
   \<and> list_all (\<lambda>r. dec_val (delta r) = dec_val (amount_1 r) - dec_val (amount_2 r)) ex_detail"
proof -
  note t = compare_outer_join [OF ex_prepare1 ex_prepare2, of "''OC.xlsx''" "''1C.xlsx''" ex_detail ex_summary 2]
  have a: "set (map company_id ex_detail) = agg_id ` set ex_left \<union> agg_id ` set ex_right"
    and b: "list_all (\<lambda>r. detail_of ''OC.xlsx'' ''1C.xlsx'' ex_left ex_right (company_id r) r) ex_detail"
    using t ex_compare by blast+
  from t ex_fits obtain detail summary
    where "compare ''OC.xlsx'' ex_df1 ''1C.xlsx'' ex_df2 = Inr (detail, summary)"
      "list_all (\<lambda>r. dec_val (delta r) = dec_val (amount_1 r) - dec_val (amount_2 r)) detail" by blast
  then have c: "list_all (\<lambda>r. dec_val (delta r) = dec_val (amount_1 r) - dec_val (amount_2 r)) ex_detail"
    using ex_compare by simp
  have d: "map company_id ex_detail = [''10'', ''12'', ''7'', ''9'']" by (simp add: ex_detail_def)
  show ?thesis using ex_prepare1 ex_prepare2 ex_compare ex_fits a b c d by simp
qed

text \<open>
  Outside the precision neither part holds. With the amount \<open>Infinity\<close> on both sides
  of an identifier the subtraction raises \<open>InvalidOperation\<close> and \<open>compare\<close> produces no
  table; with the amounts \<open>10000000000000000000000000000\<close> and \<open>-1\<close> the difference is
  rounded to 28 digits, so that \<open>delta\<close> is \<open>1E+28\<close> and not
  \<open>10000000000000000000000000001\<close>.
\<close>

theorem compare_outer_join_counterexample:
  "prepare_file1 [\<lparr>f1_name_c = PyNaN, f1_name_d = PyStr ''A [1]'', f1_amount = PyStr ''Infinity''\<rparr>]
     = Inr [\<lparr>agg_id = ''1'', agg_amount = Infinite False, agg_name = Some ''A [1]''\<rparr>]
   \<and> prepare_file2 [\<lparr>f2_raw_id = PyStr ''1,000'', f2_name_b = PyNaN, f2_name_c = PyStr ''A'', f2_amount = PyStr ''Infinity''\<rparr>]
     = Inr [\<lparr>agg_id = ''1'', agg_amount = Infinite False, agg_name = Some ''A''\<rparr>]
   \<and> compare ''OC.xlsx'' [\<lparr>f1_name_c = PyNaN, f1_name_d = PyStr ''A [1]'', f1_amount = PyStr ''Infinity''\<rparr>]
         ''1C.xlsx'' [\<lparr>f2_raw_id = PyStr ''1,000'', f2_name_b = PyNaN, f2_name_c = PyStr ''A'', f2_amount = PyStr ''Infinity''\<rparr>]
     = Inl InvalidOperation
   \<and> compare ''OC.xlsx'' [\<lparr>f1_name_c = PyNaN, f1_name_d = PyStr ''A [1]'', f1_amount = PyStr ''10000000000000000000000000000''\<rparr>]
         ''1C.xlsx'' [\<lparr>f2_raw_id = PyStr ''1,000'', f2_name_b = PyNaN, f2_name_c = PyStr ''A'', f2_amount = PyStr ''-1''\<rparr>]
     = Inr ([\<lparr>company_id = ''1'', company_name_1 = Some ''A [1]'', company_name_2 = Some ''A'',
              amount_1 = Finite False 1000000000000000000000000000 1, amount_2 = Finite True 1 0,
              delta = Finite False 1000000000000000000000000000 1, status = ''MISMATCH''\<rparr>],
            [\<lparr>summary_status = ''MISMATCH'', rows = 1,
              total_amount_1 = Finite False 1000000000000000000000000000 1,
              total_amount_2 = Finite True 1 0,
              total_delta = Finite False 1000000000000000000000000000 1\<rparr>])
   \<and> dec_val (Finite False 1000000000000000000000000000 1) = 10000000000000000000000000000
   \<and> dec_val (Finite False 1000000000000000000000000000 1) - dec_val (Finite True 1 0)
        = 10000000000000000000000000001"
  by (simp add: ev ev_dec ev_frame ev_compare)

lemma dec_eq_zero_val: "is_finite d \<Longrightarrow> dec_eq_zero d = Inr (dec_val d = 0)"
  by (cases d) simp_all

lemma get_status_rule:
  assumes "get_status f1 f2 n1 n2 d = Inr st"
  shows "n1 \<noteq> None \<and> n2 \<noteq> None \<and> dec_eq_zero d = Inr True \<longrightarrow> st = ''MATCH''"
    and "n1 \<noteq> None \<and> n2 \<noteq> None \<and> dec_eq_zero d = Inr False \<longrightarrow> st = ''MISMATCH''"
    and "n1 \<noteq> None \<and> n2 \<noteq> None \<longrightarrow> (\<exists>z. dec_eq_zero d = Inr z)"
    and "n1 \<noteq> None \<and> n2 = None \<longrightarrow> st = ''only_file_'' @ f1"
    and "n1 = None \<and> n2 \<noteq> None \<longrightarrow> st = ''only_file_'' @ f2"
  using assms by (auto simp: get_status_def Let_def split: sum.splits if_splits)

text \<open>
  Claim C2: in every detail row that \<open>compare\<close> returns, the status follows the fixed
  order of rules. With both names present it is \<open>MATCH\<close> when the decimal comparison
  \<open>delta == 0\<close> holds and \<open>MISMATCH\<close> when it does not, and that comparison never raises
  there; with only the name of the first file it is \<open>only_file_\<close> followed by the label of
  the first file, with only the name of the second file \<open>only_file_\<close> followed by the
  label of the second file. On a finite \<open>delta\<close> the comparison is the equality of its
  exact value with zero. Totals of \<open>100.00\<close> and \<open>100.00\<close> give \<open>MATCH\<close> with a \<open>delta\<close> of
  value 0; totals of \<open>100.00\<close> and \<open>99.99\<close> give \<open>MISMATCH\<close> with a \<open>delta\<close> of value
  exactly 1/100.
\<close>

theorem compare_status_rule:
  "(compare f1 df1 f2 df2 = Inr (detail, summary) \<longrightarrow>
      list_all (\<lambda>r.
          (company_name_1 r \<noteq> None \<and> company_name_2 r \<noteq> None \<and> dec_eq_zero (delta r) = Inr True
             \<longrightarrow> status r = ''MATCH'')
        \<and> (company_name_1 r \<noteq> None \<and> company_name_2 r \<noteq> None \<and> dec_eq_zero (delta r) = Inr False
             \<longrightarrow> status r = ''MISMATCH'')
        \<and> (company_name_1 r \<noteq> None \<and> company_name_2 r \<noteq> None \<longrightarrow> (\<exists>z. dec_eq_zero (delta r) = Inr z))
        \<and> (company_name_1 r \<noteq> None \<and> company_name_2 r = None \<longrightarrow> status r = ''only_file_'' @ f1)
        \<and> (company_name_1 r = None \<and> company_name_2 r \<noteq> None \<longrightarrow> status r = ''only_file_'' @ f2)
        \<and> (is_finite (delta r) \<longrightarrow> dec_eq_zero (delta r) = Inr (dec_val (delta r) = 0))) detail)
   \<and> compare ''OC.xlsx'' [\<lparr>f1_name_c = PyNaN, f1_name_d = PyStr ''X [5]'', f1_amount = PyStr ''100.00''\<rparr>]
        ''1C.xlsx'' [\<lparr>f2_raw_id = PyStr ''5,000'', f2_name_b = PyNaN, f2_name_c = PyStr ''X'', f2_amount = PyStr ''100.00''\<rparr>]
      = Inr ([\<lparr>company_id = ''5'', company_name_1 = Some ''X [5]'', company_name_2 = Some ''X'',
               amount_1 = Finite False 10000 (- 2), amount_2 = Finite False 10000 (- 2),
               delta = Finite False 0 (- 2), status = ''MATCH''\<rparr>],
             [\<lparr>summary_status = ''MATCH'', rows = 1, total_amount_1 = Finite False 10000 (- 2),
               total_amount_2 = Finite False 10000 (- 2), total_delta = Finite False 0 (- 2)\<rparr>])
   \<and> dec_val (Finite False 0 (- 2)) = 0
   \<and> compare ''OC.xlsx'' [\<lparr>f1_name_c = PyNaN, f1_name_d = PyStr ''X [5]'', f1_amount = PyStr ''100.00''\<rparr>]
        ''1C.xlsx'' [\<lparr>f2_raw_id = PyStr ''5,000'', f2_name_b = PyNaN, f2_name_c = PyStr ''X'', f2_amount = PyStr ''99.99''\<rparr>]
      = Inr ([\<lparr>company_id = ''5'', company_name_1 = Some ''X [5]'', company_name_2 = Some ''X'',
               amount_1 = Finite False 10000 (- 2), amount_2 = Finite False 9999 (- 2),
               delta = Finite False 1 (- 2), status = ''MISMATCH''\<rparr>],
             [\<lparr>summary_status = ''MISMATCH'', rows = 1, total_amount_1 = Finite False 10000 (- 2),
               total_amount_2 = Finite False 9999 (- 2), total_delta = Finite False 1 (- 2)\<rparr>])
   \<and> dec_val (Finite False 1 (- 2)) = 1 / 100"
proof (intro conjI impI)
  assume c: "compare f1 df1 f2 df2 = Inr (detail, summary)"
  from c obtain left right where p: "prepare_file1 df1 = Inr left" "prepare_file2 df2 = Inr right"
    by (rule compare_Inr_prepare)
  note cr = compare_rows [OF p c]
  show "list_all (\<lambda>r.
          (company_name_1 r \<noteq> None \<and> company_name_2 r \<noteq> None \<and> dec_eq_zero (delta r) = Inr True
             \<longrightarrow> status r = ''MATCH'')
        \<and> (company_name_1 r \<noteq> None \<and> company_name_2 r \<noteq> None \<and> dec_eq_zero (delta r) = Inr False
             \<longrightarrow> status r = ''MISMATCH'')
        \<and> (company_name_1 r \<noteq> None \<and> company_name_2 r \<noteq> None \<longrightarrow> (\<exists>z. dec_eq_zero (delta r) = Inr z))
        \<and> (company_name_1 r \<noteq> None \<and> company_name_2 r = None \<longrightarrow> status r = ''only_file_'' @ f1)
        \<and> (company_name_1 r = None \<and> company_name_2 r \<noteq> None \<longrightarrow> status r = ''only_file_'' @ f2)
        \<and> (is_finite (delta r) \<longrightarrow> dec_eq_zero (delta r) = Inr (dec_val (delta r) = 0))) detail"
    unfolding list_all_iff
  proof
    fix r assume "r \<in> set detail"
    then have "detail_of f1 f2 left right (company_id r) r" using cr(2) by (simp add: list_all_iff)
    then have g: "get_status f1 f2 (company_name_1 r) (company_name_2 r) (delta r) = Inr (status r)"
      unfolding detail_of_def by blast
    show "(company_name_1 r \<noteq> None \<and> company_name_2 r \<noteq> None \<and> dec_eq_zero (delta r) = Inr True
             \<longrightarrow> status r = ''MATCH'')
        \<and> (company_name_1 r \<noteq> None \<and> company_name_2 r \<noteq> None \<and> dec_eq_zero (delta r) = Inr False
             \<longrightarrow> status r = ''MISMATCH'')
        \<and> (company_name_1 r \<noteq> None \<and> company_name_2 r \<noteq> None \<longrightarrow> (\<exists>z. dec_eq_zero (delta r) = Inr z))
        \<and> (company_name_1 r \<noteq> None \<and> company_name_2 r = None \<longrightarrow> status r = ''only_file_'' @ f1)
        \<and> (company_name_1 r = None \<and> company_name_2 r \<noteq> None \<longrightarrow> status r = ''only_file_'' @ f2)
        \<and> (is_finite (delta r) \<longrightarrow> dec_eq_zero (delta r) = Inr (dec_val (delta r) = 0))"
      using get_status_rule [OF g] dec_eq_zero_val [of "delta r"] by blast
  qed
next
  show "compare ''OC.xlsx'' [\<lparr>f1_name_c = PyNaN, f1_name_d = PyStr ''X [5]'', f1_amount = PyStr ''100.00''\<rparr>]
        ''1C.xlsx'' [\<lparr>f2_raw_id = PyStr ''5,000'', f2_name_b = PyNaN, f2_name_c = PyStr ''X'', f2_amount = PyStr ''100.00''\<rparr>]
      = Inr ([\<lparr>company_id = ''5'', company_name_1 = Some ''X [5]'', company_name_2 = Some ''X'',
               amount_1 = Finite False 10000 (- 2), amount_2 = Finite False 10000 (- 2),
               delta = Finite False 0 (- 2), status = ''MATCH''\<rparr>],
             [\<lparr>summary_status = ''MATCH'', rows = 1, total_amount_1 = Finite False 10000 (- 2),
               total_amount_2 = Finite False 10000 (- 2), total_delta = Finite False 0 (- 2)\<rparr>])"
    by (simp add: ev ev_dec ev_frame ev_compare)
next
  show "dec_val (Finite False 0 (- 2)) = 0" by simp
next
  show "compare ''OC.xlsx'' [\<lparr>f1_name_c = PyNaN, f1_name_d = PyStr ''X [5]'', f1_amount = PyStr ''100.00''\<rparr>]
        ''1C.xlsx'' [\<lparr>f2_raw_id = PyStr ''5,000'', f2_name_b = PyNaN, f2_name_c = PyStr ''X'', f2_amount = PyStr ''99.99''\<rparr>]
      = Inr ([\<lparr>company_id = ''5'', company_name_1 = Some ''X [5]'', company_name_2 = Some ''X'',
               amount_1 = Finite False 10000 (- 2), amount_2 = Finite False 9999 (- 2),
               delta = Finite False 1 (- 2), status = ''MISMATCH''\<rparr>],
             [\<lparr>summary_status = ''MISMATCH'', rows = 1, total_amount_1 = Finite False 10000 (- 2),
               total_amount_2 = Finite False 9999 (- 2), total_delta = Finite False 1 (- 2)\<rparr>])"
    by (simp add: ev ev_dec ev_frame ev_compare)
next
  show "dec_val (Finite False 1 (- 2)) = 1 / 100" by simp
qed

text \<open>The detail rows of the example frames, with their names, comparisons and statuses.\<close>

theorem compare_status_rule_witness:
  "compare ''OC.xlsx'' ex_df1 ''1C.xlsx'' ex_df2 = Inr (ex_detail, ex_summary)
   \<and> list_all (\<lambda>r. is_finite (delta r)) ex_detail
   \<and> map (\<lambda>r. (company_name_1 r \<noteq> None, company_name_2 r \<noteq> None, dec_eq_zero (delta r), status r)) ex_detail
       = [(False, True, Inr True, ''only_file_1C.xlsx''), (True, True, Inr True, ''MATCH''),
          (True, False, Inr False, ''only_file_OC.xlsx''), (False, True, Inr False, ''only_file_1C.xlsx'')]
   \<and> list_all (\<lambda>r. dec_eq_zero (delta r) = Inr (dec_val (delta r) = 0)) ex_detail"
proof -
  note t = compare_status_rule [of "''OC.xlsx''" ex_df1 "''1C.xlsx''" ex_df2 ex_detail ex_summary]
  have f: "list_all (\<lambda>r. is_finite (delta r)) ex_detail"
    by (simp add: ex_detail_def)
  have m: "map (\<lambda>r. (company_name_1 r \<noteq> None, company_name_2 r \<noteq> None, dec_eq_zero (delta r), status r)) ex_detail
       = [(False, True, Inr True, ''only_file_1C.xlsx''), (True, True, Inr True, ''MATCH''),
          (True, False, Inr False, ''only_file_OC.xlsx''), (False, True, Inr False, ''only_file_1C.xlsx'')]"
    by (simp add: ex_detail_def)
  from t ex_compare have "list_all (\<lambda>r. is_finite (delta r) \<longrightarrow> dec_eq_zero (delta r) = Inr (dec_val (delta r) = 0)) ex_detail"
    unfolding list_all_iff by blast
  with f have "list_all (\<lambda>r. dec_eq_zero (delta r) = Inr (dec_val (delta r) = 0)) ex_detail"
    unfolding list_all_iff by blast
  with ex_compare f m show ?thesis by simp
qed

text \<open>
  Claim C10: in every detail row that \<open>compare\<close> returns, the name of a side is present
  exactly when the identifier of the row is in the aggregated frame of that side; the
  status is one of the two \<open>only_file\<close> labels exactly when the identifier is in exactly
  one of the aggregated frames, and then it carries the label of that side. The
  identifiers of an aggregated frame are those of the kept rows of its source, and every
  aggregated row has a name: a row whose name cells are all blank gets the name \<open>nan\<close>.
\<close>

theorem compare_name_presence:
  assumes "prepare_file1 df1 = Inr left" and "prepare_file2 df2 = Inr right"
    and "compare f1 df1 f2 df2 = Inr (detail, summary)"
  shows "list_all (\<lambda>r.
            (company_name_1 r \<noteq> None \<longleftrightarrow> company_id r \<in> agg_id ` set left)
          \<and> (company_name_2 r \<noteq> None \<longleftrightarrow> company_id r \<in> agg_id ` set right)
          \<and> ((status r = ''only_file_'' @ f1 \<or> status r = ''only_file_'' @ f2) \<longleftrightarrow>
               (company_id r \<in> agg_id ` set left) \<noteq> (company_id r \<in> agg_id ` set right))
          \<and> (company_id r \<in> agg_id ` set left \<and> company_id r \<notin> agg_id ` set right
               \<longrightarrow> status r = ''only_file_'' @ f1)
          \<and> (company_id r \<notin> agg_id ` set left \<and> company_id r \<in> agg_id ` set right
               \<longrightarrow> status r = ''only_file_'' @ f2)) detail
         \<and> agg_id ` set left = {k. \<exists>r\<in>set df1. row1_id r = Some k}
         \<and> agg_id ` set right = {k. \<exists>r\<in>set df2. row2_id r = Some k}
         \<and> list_all (\<lambda>a. agg_name a \<noteq> None) left \<and> list_all (\<lambda>a. agg_name a \<noteq> None) right
         \<and> prepare_file2 [\<lparr>f2_raw_id = PyStr ''9,000'', f2_name_b = PyNaN, f2_name_c = PyNaN, f2_amount = PyInt 10\<rparr>]
             = Inr [\<lparr>agg_id = ''9'', agg_amount = Finite False 10 0, agg_name = Some ''nan''\<rparr>]"
proof (intro conjI)
  note al = prepare_file1_aggregated [OF assms(1)]
  note ar = prepare_file2_aggregated [OF assms(2)]
  note cr = compare_rows [OF assms]
  have nl: "\<And>a. a \<in> set left \<Longrightarrow> agg_name a \<noteq> None" using al by (rule aggregated_name)
  have nr: "\<And>a. a \<in> set right \<Longrightarrow> agg_name a \<noteq> None" using ar by (rule aggregated_name)
  show "agg_id ` set left = {k. \<exists>r\<in>set df1. row1_id r = Some k}" using al by (rule aggregated_ids)
  show "agg_id ` set right = {k. \<exists>r\<in>set df2. row2_id r = Some k}" using ar by (rule aggregated_ids)
  show "list_all (\<lambda>a. agg_name a \<noteq> None) left" using nl by (simp add: list_all_iff)
  show "list_all (\<lambda>a. agg_name a \<noteq> None) right" using nr by (simp add: list_all_iff)
  have side: "\<And>t k. (\<And>a. a \<in> set t \<Longrightarrow> agg_name a \<noteq> None) \<Longrightarrow>
      ((case lookup t k of None \<Rightarrow> None | Some a \<Rightarrow> agg_name a) \<noteq> None) = (k \<in> agg_id ` set t)"
  proof -
    fix t :: "agg_row list" and k
    assume n: "\<And>a. a \<in> set t \<Longrightarrow> agg_name a \<noteq> None"
    show "((case lookup t k of None \<Rightarrow> None | Some a \<Rightarrow> agg_name a) \<noteq> None) = (k \<in> agg_id ` set t)"
    proof (cases "lookup t k")
      case None
      then show ?thesis using lookup_None [of t k] by simp
    next
      case (Some a)
      then have "a \<in> set t" "agg_id a = k" using lookup_Some by blast+
      then show ?thesis using Some n lookup_None [of t k] by auto
    qed
  qed
  show "list_all (\<lambda>r.
            (company_name_1 r \<noteq> None \<longleftrightarrow> company_id r \<in> agg_id ` set left)
          \<and> (company_name_2 r \<noteq> None \<longleftrightarrow> company_id r \<in> agg_id ` set right)
          \<and> ((status r = ''only_file_'' @ f1 \<or> status r = ''only_file_'' @ f2) \<longleftrightarrow>
               (company_id r \<in> agg_id ` set left) \<noteq> (company_id r \<in> agg_id ` set right))
          \<and> (company_id r \<in> agg_id ` set left \<and> company_id r \<notin> agg_id ` set right
               \<longrightarrow> status r = ''only_file_'' @ f1)
          \<and> (company_id r \<notin> agg_id ` set left \<and> company_id r \<in> agg_id ` set right
               \<longrightarrow> status r = ''only_file_'' @ f2)) detail"
    unfolding list_all_iff
  proof
    fix r assume r: "r \<in> set detail"
    then have d: "detail_of f1 f2 left right (company_id r) r" using cr(2) by (simp add: list_all_iff)
    have "company_id r \<in> set (map company_id detail)" using r by simp
    then have some: "company_id r \<in> agg_id ` set left \<or> company_id r \<in> agg_id ` set right"
      unfolding cr(1) by auto
    have n1: "(company_name_1 r \<noteq> None) = (company_id r \<in> agg_id ` set left)"
      using d side [of left "company_id r", OF nl] unfolding detail_of_def by simp
    have n2: "(company_name_2 r \<noteq> None) = (company_id r \<in> agg_id ` set right)"
      using d side [of right "company_id r", OF nr] unfolding detail_of_def by simp
    have g: "get_status f1 f2 (company_name_1 r) (company_name_2 r) (delta r) = Inr (status r)"
      using d unfolding detail_of_def by blast
    have st: "(status r = ''only_file_'' @ f1 \<or> status r = ''only_file_'' @ f2) \<longleftrightarrow>
               (company_name_1 r \<noteq> None) \<noteq> (company_name_2 r \<noteq> None)"
      using g some unfolding n1 [symmetric] n2 [symmetric]
      by (auto simp: get_status_def Let_def split: sum.splits if_splits)
    have o1: "company_name_1 r \<noteq> None \<and> company_name_2 r = None \<longrightarrow> status r = ''only_file_'' @ f1"
      and o2: "company_name_1 r = None \<and> company_name_2 r \<noteq> None \<longrightarrow> status r = ''only_file_'' @ f2"
      using get_status_rule(4,5) [OF g] by blast+
    show "(company_name_1 r \<noteq> None \<longleftrightarrow> company_id r \<in> agg_id ` set left)
          \<and> (company_name_2 r \<noteq> None \<longleftrightarrow> company_id r \<in> agg_id ` set right)
          \<and> ((status r = ''only_file_'' @ f1 \<or> status r = ''only_file_'' @ f2) \<longleftrightarrow>
               (company_id r \<in> agg_id ` set left) \<noteq> (company_id r \<in> agg_id ` set right))
          \<and> (company_id r \<in> agg_id ` set left \<and> company_id r \<notin> agg_id ` set right
               \<longrightarrow> status r = ''only_file_'' @ f1)
          \<and> (company_id r \<notin> agg_id ` set left \<and> company_id r \<in> agg_id ` set right
               \<longrightarrow> status r = ''only_file_'' @ f2)"
      by (simp only: n1 [symmetric] n2 [symmetric]) (use st o1 o2 in auto)
  qed
  show "prepare_file2 [\<lparr>f2_raw_id = PyStr ''9,000'', f2_name_b = PyNaN, f2_name_c = PyNaN, f2_amount = PyInt 10\<rparr>]
             = Inr [\<lparr>agg_id = ''9'', agg_amount = Finite False 10 0, agg_name = Some ''nan''\<rparr>]"
    by (simp add: ev ev_dec ev_frame)
qed

text \<open>
  The example frames; the identifier 9 has only blank name cells in the second file and
  is reported as present there only.
\<close>

theorem compare_name_presence_witness:
  "prepare_file1 ex_df1 = Inr ex_left \<and> prepare_file2 ex_df2 = Inr ex_right
   \<and> compare ''OC.xlsx'' ex_df1 ''1C.xlsx'' ex_df2 = Inr (ex_detail, ex_summary)
   \<and> list_all (\<lambda>r. (company_name_1 r \<noteq> None) = (company_id r \<in> agg_id ` set ex_left)
                \<and> (company_name_2 r \<noteq> None) = (company_id r \<in> agg_id ` set ex_right)) ex_detail
   \<and> map (\<lambda>r. (company_id r, company_name_1 r, company_name_2 r, status r)) ex_detail
       = [(''10'', None, Some ''B'', ''only_file_1C.xlsx''),
          (''12'', Some ''Acme [12]'', Some ''Acme'', ''MATCH''),
          (''7'', Some ''Other [7]'', None, ''only_file_OC.xlsx''),
          (''9'', None, Some ''nan'', ''only_file_1C.xlsx'')]
   \<and> agg_id ` set ex_left = {k. \<exists>r\<in>set ex_df1. row1_id r = Some k}
   \<and> agg_id ` set ex_right = {k. \<exists>r\<in>set ex_df2. row2_id r = Some k}"
proof -
  note t = compare_name_presence [OF ex_prepare1 ex_prepare2 ex_compare]
  note t1 = t [THEN conjunct1]
  note b = t [THEN conjunct2, THEN conjunct1]
  note c = t [THEN conjunct2, THEN conjunct2, THEN conjunct1]
  have a: "list_all (\<lambda>r. (company_name_1 r \<noteq> None) = (company_id r \<in> agg_id ` set ex_left)
                \<and> (company_name_2 r \<noteq> None) = (company_id r \<in> agg_id ` set ex_right)) ex_detail"
    by (rule list.pred_mono_strong [OF t1]) simp
  have d: "map (\<lambda>r. (company_id r, company_name_1 r, company_name_2 r, status r)) ex_detail
       = [(''10'', None, Some ''B'', ''only_file_1C.xlsx''),
          (''12'', Some ''Acme [12]'', Some ''Acme'', ''MATCH''),
          (''7'', Some ''Other [7]'', None, ''only_file_OC.xlsx''),
          (''9'', None, Some ''nan'', ''only_file_1C.xlsx'')]"
    by (simp add: ex_detail_def)
  show ?thesis
    by (intro conjI) (rule ex_prepare1 ex_prepare2 ex_compare a b c d)+
qed

lemma string_10_less_2: "(''10'' :: string) < ''2''"
  by simp

text \<open>
  Claim C9: when \<open>compare\<close> returns, the detail rows are in ascending order of the
  identifier as a string, where \<open>10\<close> comes before \<open>2\<close>; the summary has one row per
  distinct status, in ascending order of the status, with the number of rows of the
  group and the sums that Python computes over the amounts and deltas of the group; the
  numbers of rows add up to the number of detail rows. When the aggregated amounts fit
  the precision of the context, \<open>compare\<close> returns and the three sums of every summary
  row are exact.
\<close>

theorem compare_sorted_summary:
  "(compare f1 df1 f2 df2 = Inr (detail, summary) \<longrightarrow>
        sorted (map company_id detail)
      \<and> summarised detail summary
      \<and> sorted (map summary_status summary) \<and> distinct (map summary_status summary)
      \<and> set (map summary_status summary) = status ` set detail
      \<and> list_all (\<lambda>s. rows s = length (filter (\<lambda>r. status r = summary_status s) detail)) summary
      \<and> sum_list (map rows summary) = length detail)
   \<and> (prepare_file1 df1 = Inr left \<and> prepare_file2 df2 = Inr right
        \<and> fits q (map agg_amount left @ map agg_amount right) \<longrightarrow>
        (\<exists>detail summary. compare f1 df1 f2 df2 = Inr (detail, summary)
           \<and> list_all (\<lambda>s. let g = filter (\<lambda>r. status r = summary_status s) detail in
                      dec_val (total_amount_1 s) = (\<Sum>r\<leftarrow>g. dec_val (amount_1 r)) \<and>
                      dec_val (total_amount_2 s) = (\<Sum>r\<leftarrow>g. dec_val (amount_2 r)) \<and>
                      dec_val (total_delta s) = (\<Sum>r\<leftarrow>g. dec_val (delta r))) summary))
   \<and> (''10'' :: string) < ''2''
   \<and> compare ''OC.xlsx'' [\<lparr>f1_name_c = PyNaN, f1_name_d = PyStr ''X [2]'', f1_amount = PyInt 1\<rparr>,
                           \<lparr>f1_name_c = PyNaN, f1_name_d = PyStr ''Y [10]'', f1_amount = PyInt 2\<rparr>]
         ''1C.xlsx'' []
      = Inr ([\<lparr>company_id = ''10'', company_name_1 = Some ''Y [10]'', company_name_2 = None,
               amount_1 = Finite False 2 0, amount_2 = Finite False 0 0, delta = Finite False 2 0,
               status = ''only_file_OC.xlsx''\<rparr>,
              \<lparr>company_id = ''2'', company_name_1 = Some ''X [2]'', company_name_2 = None,
               amount_1 = Finite False 1 0, amount_2 = Finite False 0 0, delta = Finite False 1 0,
               status = ''only_file_OC.xlsx''\<rparr>],
             [\<lparr>summary_status = ''only_file_OC.xlsx'', rows = 2, total_amount_1 = Finite False 3 0,
               total_amount_2 = Finite False 0 0, total_delta = Finite False 3 0\<rparr>])"
proof (intro conjI impI)
  assume c: "compare f1 df1 f2 df2 = Inr (detail, summary)"
  from c obtain left right where p: "prepare_file1 df1 = Inr left" "prepare_file2 df2 = Inr right"
    by (rule compare_Inr_prepare)
  note cr = compare_rows [OF p c]
  have ids: "map summary_status summary = sort (remdups (map status detail))"
    using cr(3) by (simp add: summarised_def)
  show "sorted (map company_id detail)" unfolding cr(1) by simp
  show "summarised detail summary" by (rule cr(3))
  show "sorted (map summary_status summary)" unfolding ids by simp
  show "distinct (map summary_status summary)" unfolding ids by simp
  show "set (map summary_status summary) = status ` set detail" unfolding ids by simp
  show "list_all (\<lambda>s. rows s = length (filter (\<lambda>r. status r = summary_status s) detail)) summary"
    using cr(3) by (simp add: summarised_def list_all_iff Let_def)
  show "sum_list (map rows summary) = length detail" using cr(3) by (rule summarised_counts)
next
  assume a: "prepare_file1 df1 = Inr left \<and> prepare_file2 df2 = Inr right
        \<and> fits q (map agg_amount left @ map agg_amount right)"
  then have p: "prepare_file1 df1 = Inr left" "prepare_file2 df2 = Inr right"
    and f: "fits q (map agg_amount left @ map agg_amount right)" by simp_all
  have dl: "distinct (map agg_id left)"
    using prepare_file1_aggregated [OF p(1)] by (rule aggregated_distinct)
  have dr: "distinct (map agg_id right)"
    using prepare_file2_aggregated [OF p(2)] by (rule aggregated_distinct)
  from reconcile_exact [OF dl dr f, of f1 f2]
  show "\<exists>detail summary. compare f1 df1 f2 df2 = Inr (detail, summary)
           \<and> list_all (\<lambda>s. let g = filter (\<lambda>r. status r = summary_status s) detail in
                      dec_val (total_amount_1 s) = (\<Sum>r\<leftarrow>g. dec_val (amount_1 r)) \<and>
                      dec_val (total_amount_2 s) = (\<Sum>r\<leftarrow>g. dec_val (amount_2 r)) \<and>
                      dec_val (total_delta s) = (\<Sum>r\<leftarrow>g. dec_val (delta r))) summary"
    unfolding compare_reconcile [OF p] by blast
next
  show "(''10'' :: string) < ''2''" by (rule string_10_less_2)
next
  show "compare ''OC.xlsx'' [\<lparr>f1_name_c = PyNaN, f1_name_d = PyStr ''X [2]'', f1_amount = PyInt 1\<rparr>,
                           \<lparr>f1_name_c = PyNaN, f1_name_d = PyStr ''Y [10]'', f1_amount = PyInt 2\<rparr>]
         ''1C.xlsx'' []
      = Inr ([\<lparr>company_id = ''10'', company_name_1 = Some ''Y [10]'', company_name_2 = None,
               amount_1 = Finite False 2 0, amount_2 = Finite False 0 0, delta = Finite False 2 0,
               status = ''only_file_OC.xlsx''\<rparr>,
              \<lparr>company_id = ''2'', company_name_1 = Some ''X [2]'', company_name_2 = None,
               amount_1 = Finite False 1 0, amount_2 = Finite False 0 0, delta = Finite False 1 0,
               status = ''only_file_OC.xlsx''\<rparr>],
             [\<lparr>summary_status = ''only_file_OC.xlsx'', rows = 2, total_amount_1 = Finite False 3 0,
               total_amount_2 = Finite False 0 0, total_delta = Finite False 3 0\<rparr>])"
    by (simp add: ev ev_dec ev_frame ev_compare)
qed

text \<open>The example frames: three statuses for four detail rows.\<close>

theorem compare_sorted_summary_witness:
  "prepare_file1 ex_df1 = Inr ex_left \<and> prepare_file2 ex_df2 = Inr ex_right
   \<and> fits 2 (map agg_amount ex_left @ map agg_amount ex_right)
   \<and> compare ''OC.xlsx'' ex_df1 ''1C.xlsx'' ex_df2 = Inr (ex_detail, ex_summary)
   \<and> sorted (map company_id ex_detail)
   \<and> map company_id ex_detail = [''10'', ''12'', ''7'', ''9'']
   \<and> map (\<lambda>s. (summary_status s, rows s)) ex_summary
       = [(''MATCH'', 1), (''only_file_1C.xlsx'', 2), (''only_file_OC.xlsx'', 1)]
   \<and> sum_list (map rows ex_summary) = length ex_detail
   \<and> list_all (\<lambda>s. let g = filter (\<lambda>r. status r = summary_status s) ex_detail in
                      dec_val (total_amount_1 s) = (\<Sum>r\<leftarrow>g. dec_val (amount_1 r)) \<and>
                      dec_val (total_amount_2 s) = (\<Sum>r\<leftarrow>g. dec_val (amount_2 r)) \<and>
                      dec_val (total_delta s) = (\<Sum>r\<leftarrow>g. dec_val (delta r))) ex_summary"
proof -
  note t = compare_sorted_summary [of "''OC.xlsx''" ex_df1 "''1C.xlsx''" ex_df2 ex_detail ex_summary ex_left ex_right 2]
  note t1 = t [THEN conjunct1, THEN mp, OF ex_compare]
  note a = t1 [THEN conjunct1]
  have b: "sum_list (map rows ex_summary) = length ex_detail"
    using t1 by simp
  have h: "prepare_file1 ex_df1 = Inr ex_left \<and> prepare_file2 ex_df2 = Inr ex_right
        \<and> fits 2 (map agg_amount ex_left @ map agg_amount ex_right)"
    by (intro conjI) (rule ex_prepare1 ex_prepare2 ex_fits)+
  from t [THEN conjunct2, THEN conjunct1, THEN mp, OF h] obtain detail summary
    where e: "compare ''OC.xlsx'' ex_df1 ''1C.xlsx'' ex_df2 = Inr (detail, summary)"
      and l: "list_all (\<lambda>s. let g = filter (\<lambda>r. status r = summary_status s) detail in
                      dec_val (total_amount_1 s) = (\<Sum>r\<leftarrow>g. dec_val (amount_1 r)) \<and>
                      dec_val (total_amount_2 s) = (\<Sum>r\<leftarrow>g. dec_val (amount_2 r)) \<and>
                      dec_val (total_delta s) = (\<Sum>r\<leftarrow>g. dec_val (delta r))) summary"
    by (elim exE conjE)
  from e have "detail = ex_detail" "summary = ex_summary" unfolding ex_compare by simp_all
  with l have c: "list_all (\<lambda>s. let g = filter (\<lambda>r. status r = summary_status s) ex_detail in
                      dec_val (total_amount_1 s) = (\<Sum>r\<leftarrow>g. dec_val (amount_1 r)) \<and>
                      dec_val (total_amount_2 s) = (\<Sum>r\<leftarrow>g. dec_val (amount_2 r)) \<and>
                      dec_val (total_delta s) = (\<Sum>r\<leftarrow>g. dec_val (delta r))) ex_summary"
    by simp
  have d: "map company_id ex_detail = [''10'', ''12'', ''7'', ''9'']" by (simp add: ex_detail_def)
  have e: "map (\<lambda>s. (summary_status s, rows s)) ex_summary
       = [(''MATCH'', 1), (''only_file_1C.xlsx'', 2), (''only_file_OC.xlsx'', 1)]"
    by (simp add: ex_summary_def)
  show ?thesis
    by (intro conjI) (rule ex_prepare1 ex_prepare2 ex_fits ex_compare a b c d e)+
qed

text \<open>
  Beyond the precision a sum of the summary is not exact: for two identifiers of the
  first file with the amounts \<open>10000000000000000000000000000\<close> and \<open>1\<close>, the total of
  the first amounts is \<open>1E+28\<close>, the exact sum being \<open>10000000000000000000000000001\<close>.
\<close>

theorem compare_summary_counterexample:
  "compare ''OC.xlsx'' [\<lparr>f1_name_c = PyNaN, f1_name_d = PyStr ''A [1]'', f1_amount = PyStr ''10000000000000000000000000000''\<rparr>,
                        \<lparr>f1_name_c = PyNaN, f1_name_d = PyStr ''B [2]'', f1_amount = PyInt 1\<rparr>]
         ''1C.xlsx'' []
     = Inr ([\<lparr>company_id = ''1'', company_name_1 = Some ''A [1]'', company_name_2 = None,
              amount_1 = Finite False 1000000000000000000000000000 1, amount_2 = Finite False 0 0,
              delta = Finite False 1000000000000000000000000000 1, status = ''only_file_OC.xlsx''\<rparr>,
             \<lparr>company_id = ''2'', company_name_1 = Some ''B [2]'', company_name_2 = None,
              amount_1 = Finite False 1 0, amount_2 = Finite False 0 0,
              delta = Finite False 1 0, status = ''only_file_OC.xlsx''\<rparr>],
            [\<lparr>summary_status = ''only_file_OC.xlsx'', rows = 2,
              total_amount_1 = Finite False 1000000000000000000000000000 1,
              total_amount_2 = Finite False 0 0,
              total_delta = Finite False 1000000000000000000000000000 1\<rparr>])
   \<and> dec_val (Finite False 1000000000000000000000000000 1) + dec_val (Finite False 1 0)
        = 10000000000000000000000000001
   \<and> dec_val (Finite False 1000000000000000000000000000 1) = 10000000000000000000000000000"
  by (simp add: ev ev_dec ev_frame ev_compare)

end
